theory Spec2Isabelle
  imports Main "HOL-Library.Word"
begin

section \<open>The account engine of iota.go: data model\<close>

text \<open>
  The embedding follows the Go file of package \<^verbatim>\<open>account\<close>. Go's \<^verbatim>\<open>uint64\<close> is a
  64-bit word, so \<^verbatim>\<open>sum += balance\<close> and \<^verbatim>\<open>acc.lastKeyIndex++\<close> wrap around. A
  \<^verbatim>\<open>time.Time\<close> of the standard library is an integer count of nanoseconds; \<^verbatim>\<open>Before\<close>
  and \<^verbatim>\<open>After\<close> are the strict orders and \<^verbatim>\<open>Add\<close> is addition. A pointer that may
  be nil is an option. A Go panic is a value of its own, apart from the returned errors.
  An error wrapped by \<^verbatim>\<open>errors.Wrap\<close> or \<^verbatim>\<open>errors.Wrapf\<close> keeps the wrapped error and the
  message; a formatted message is kept as its format string.
\<close>

type_synonym uint64 = "64 word"
type_synonym Trytes = string
type_synonym Hash = string
type_synonym Time = int
type_synonym SecurityLevel = nat

definition Minute :: int where
  "Minute = 60 * 1000000000"

definition Second :: int where
  "Second = 1000000000"

datatype error =
    ErrAccountNotRunning
  | ErrEmptyRecipients
  | ErrInvalidAddress
  | ErrTimeoutNotSpecified
  | ErrTimeoutTooLow
  | ErrInsufficientBalance
  | Collaborator string
  | Wrap error string

datatype 'a outcome = Panic string | Return 'a

text \<open>\<^verbatim>\<open>deposit.Request\<close>, \<^verbatim>\<open>store.StoredDepositRequest\<close> and \<^verbatim>\<open>deposit.Conditions\<close>, with
  the fields the account reads.\<close>

record Request =
  TimeoutAt :: "Time option"
  MultiUse :: bool
  ExpectedAmount :: "uint64 option"

record StoredDepositRequest =
  SecurityLevel :: SecurityLevel
  Request :: Request

record Conditions =
  cond_Address :: Hash
  cond_Request :: Request

text \<open>\<^verbatim>\<open>api.Input\<close>.\<close>

record Input =
  in_Address :: Hash
  in_KeyIndex :: uint64
  in_Balance :: uint64
  in_Security :: SecurityLevel

text \<open>\<^verbatim>\<open>bundle.Transfer\<close> (a \<^verbatim>\<open>Recipient\<close>) and \<^verbatim>\<open>transaction.Transaction\<close>; a bundle is
  the list of its transactions.\<close>

record Transfer =
  tr_Address :: Hash
  tr_Value :: uint64

record Transaction =
  tx_Hash :: Hash
  tx_Address :: Hash
  tx_Value :: int
  tx_Bundle :: Hash
  tx_Persistence :: "bool option"

type_synonym Bundle = "Transaction list"

record PrepareTransfersOptions =
  opt_Inputs :: "Input list"
  opt_RemainderAddress :: "Hash option"
  opt_Timestamp :: "uint64 option"

record TransactionsToApprove =
  TrunkTransaction :: Hash
  BranchTransaction :: Hash

text \<open>The local type \<^verbatim>\<open>selection\<close> of \<^verbatim>\<open>defaultInputSelection\<close>.\<close>

record selection =
  keyIndex :: uint64
  req :: StoredDepositRequest

subsection \<open>The store\<close>

text \<open>
  Modelled from the spec: the store's account state (package \<^verbatim>\<open>store\<close> is not among the
  sources). It holds the key index, the deposit requests and the pending transfers of
  the one account. \<^verbatim>\<open>DepositRequests\<close> is a Go map from key index to request; the list
  gives its entries in the order in which \<^verbatim>\<open>range\<close> yields them, an order Go leaves
  unspecified.
\<close>

record PendingTransfer =
  pt_Tail :: Hash
  pt_Bundle :: "Trytes list"
  pt_Indices :: "uint64 list"

record AccountState =
  KeyIndex :: uint64
  DepositRequests :: "(uint64 \<times> StoredDepositRequest) list"
  PendingTransfers :: "PendingTransfer list"

subsection \<open>Effects\<close>

text \<open>
  What an operation does to its collaborators is written to a trace, in order: the lock
  and unlock of the account's mutex, the writes to the store (with whether they
  succeeded), the broadcast, the plugins' start and shutdown, and the emitted events.
  Lookups that change nothing are not traced.
\<close>

datatype EventKind = EventShutdown | EventSendingTransfer Bundle

datatype Effect =
    Lock
  | Unlock
  | RLock
  | RUnlock
  | WriteIndex uint64 bool
  | AddDepositRequest uint64 StoredDepositRequest bool
  | AddPendingTransfer Hash "Trytes list" "uint64 list" bool
  | StoreAndBroadcast "Trytes list"
  | PluginStart nat
  | PluginShutdown nat
  | Emit EventKind

record World =
  store :: AccountState
  trace :: "Effect list"

definition log :: "Effect \<Rightarrow> World \<Rightarrow> World" where
  "log e w = w\<lparr>trace := trace w @ [e]\<rparr>"

subsection \<open>Settings and library functions\<close>

text \<open>
  A plugin answers \<^verbatim>\<open>Start\<close> and \<^verbatim>\<open>Shutdown\<close> with an error or nil.
\<close>

record Plugin =
  plugin_Start :: "error option"
  plugin_Shutdown :: "error option"

text \<open>
  \<^verbatim>\<open>Settings\<close>: the collaborators behind \<^verbatim>\<open>acc.setts\<close>, each given by what it answers.
  For the store, the settings say which calls fail; what a call that succeeds does to the
  state is defined below.
\<close>

record Settings =
  seedProv_Seed :: "error + Trytes"
  clock_Now :: "error + Time"
  LoadAccount_fails :: "error option"
  GetDepositRequests_fails :: "error option"
  WriteIndex_fails :: "uint64 \<Rightarrow> error option"
  AddDepositRequest_fails :: "uint64 \<Rightarrow> StoredDepositRequest \<Rightarrow> error option"
  AddPendingTransfer_fails :: "Hash \<Rightarrow> Trytes list \<Rightarrow> uint64 list \<Rightarrow> error option"
  api_GetLatestSolidSubtangleMilestone :: "error + Hash"
  api_GetBalances :: "Hash list \<Rightarrow> nat \<Rightarrow> Hash \<Rightarrow> error + uint64 list"
  api_GetBundlesFromAddresses :: "Hash list \<Rightarrow> bool \<Rightarrow> error + Bundle list"
  api_CheckConsistency :: "Hash \<Rightarrow> error + bool"
  api_PrepareTransfers ::
    "Trytes \<Rightarrow> Transfer list \<Rightarrow> PrepareTransfersOptions \<Rightarrow> error + Trytes list"
  api_GetTransactionsToApprove :: "nat \<Rightarrow> error + TransactionsToApprove"
  api_AttachToTangle :: "Hash \<Rightarrow> Hash \<Rightarrow> nat \<Rightarrow> Trytes list \<Rightarrow> error + Trytes list"
  api_StoreAndBroadcast :: "Trytes list \<Rightarrow> error + Trytes list"
  plugins :: "Plugin list"
  securityLevel :: SecurityLevel
  depth :: nat
  mwm :: nat

text \<open>
  The functions of other packages that the account calls and whose code is not among the
  sources (or, for \<^verbatim>\<open>address.GenerateAddress\<close>, rests on hashing that is not): they are
  parameters of the model, pure functions of their arguments.
\<close>

record Lib =
  GenerateAddress :: "Trytes \<Rightarrow> uint64 \<Rightarrow> SecurityLevel \<Rightarrow> bool \<Rightarrow> error + Hash"
  IsTrytesOfExactLength :: "Trytes \<Rightarrow> nat \<Rightarrow> bool"
  HashTrytesSize :: nat
  AddressChecksumTrytesSize :: nat
  AsTransactionObject :: "Trytes \<Rightarrow> error + Transaction"
  AsTransactionObjects :: "Trytes list \<Rightarrow> error + Bundle"
  AccountState_IsNew :: "AccountState \<Rightarrow> bool"

text \<open>The struct \<^verbatim>\<open>account\<close>; its mutex is seen through the trace.\<close>

record account =
  acc_id :: string
  running :: bool
  setts :: Settings
  lastKeyIndex :: uint64

subsection \<open>Store operations\<close>

text \<open>
  Modelled from the spec: \<^verbatim>\<open>LoadAccount\<close> and \<^verbatim>\<open>GetDepositRequests\<close> read the state;
  \<^verbatim>\<open>WriteIndex\<close> writes the next key index; \<^verbatim>\<open>AddDepositRequest\<close> adds a request under
  its key index; \<^verbatim>\<open>AddPendingTransfer\<close> adds a pending transfer and frees the deposit
  requests of the given key indices. A call that fails changes nothing.
\<close>

definition store_LoadAccount :: "Settings \<Rightarrow> World \<Rightarrow> error + AccountState" where
  "store_LoadAccount S w =
     (case LoadAccount_fails S of Some e \<Rightarrow> Inl e | None \<Rightarrow> Inr (store w))"

definition store_GetDepositRequests ::
  "Settings \<Rightarrow> World \<Rightarrow> error + (uint64 \<times> StoredDepositRequest) list" where
  "store_GetDepositRequests S w =
     (case GetDepositRequests_fails S of
        Some e \<Rightarrow> Inl e
      | None \<Rightarrow> Inr (DepositRequests (store w)))"

definition store_WriteIndex :: "Settings \<Rightarrow> World \<Rightarrow> uint64 \<Rightarrow> error option \<times> World" where
  "store_WriteIndex S w index =
     (case WriteIndex_fails S index of
        Some e \<Rightarrow> (Some e, log (WriteIndex index False) w)
      | None \<Rightarrow>
          (None, log (WriteIndex index True) (w\<lparr>store := (store w)\<lparr>KeyIndex := index\<rparr>\<rparr>)))"

definition store_AddDepositRequest ::
  "Settings \<Rightarrow> World \<Rightarrow> uint64 \<Rightarrow> StoredDepositRequest \<Rightarrow> error option \<times> World" where
  "store_AddDepositRequest S w index r =
     (case AddDepositRequest_fails S index r of
        Some e \<Rightarrow> (Some e, log (AddDepositRequest index r False) w)
      | None \<Rightarrow>
          (None,
           log (AddDepositRequest index r True)
             (w\<lparr>store := (store w)\<lparr>DepositRequests :=
                  filter (\<lambda>(k, _). k \<noteq> index) (DepositRequests (store w)) @ [(index, r)]\<rparr>\<rparr>)))"

definition store_AddPendingTransfer ::
  "Settings \<Rightarrow> World \<Rightarrow> Hash \<Rightarrow> Trytes list \<Rightarrow> uint64 list \<Rightarrow> error option \<times> World" where
  "store_AddPendingTransfer S w tail trytes indices =
     (case AddPendingTransfer_fails S tail trytes indices of
        Some e \<Rightarrow> (Some e, log (AddPendingTransfer tail trytes indices False) w)
      | None \<Rightarrow>
          (None,
           log (AddPendingTransfer tail trytes indices True)
             (w\<lparr>store := (store w)\<lparr>
                  DepositRequests :=
                    filter (\<lambda>(k, _). k \<notin> set indices) (DepositRequests (store w)),
                  PendingTransfers :=
                    PendingTransfers (store w) @
                    [\<lparr>pt_Tail = tail, pt_Bundle = trytes, pt_Indices = indices\<rparr>]\<rparr>\<rparr>)))"

section \<open>The consistency checker\<close>

text \<open>
  \<^verbatim>\<open>hasIncomingConsistentValueTransfer\<close>. The inner loop over the transactions of a bundle
  is \<^verbatim>\<open>isDepositToAddr\<close>; the outer loop over the bundles carries the set \<^verbatim>\<open>persisted\<close>
  of the bundle hashes seen confirmed so far. Reading \<^verbatim>\<open>bndls[i][0]\<close> of an empty bundle
  and dereferencing a nil \<^verbatim>\<open>Persistence\<close> panic.
\<close>

definition isDepositToAddr :: "Hash \<Rightarrow> Bundle \<Rightarrow> bool" where
  "isDepositToAddr addr b = list_ex (\<lambda>t. tx_Value t > 0 \<and> tx_Address t = addr) b"

fun bundlesLoop ::
  "Settings \<Rightarrow> Hash \<Rightarrow> Hash list \<Rightarrow> Bundle list \<Rightarrow> (bool \<times> error option) outcome" where
  "bundlesLoop S addr persisted [] = Return (False, None)"
| "bundlesLoop S addr persisted (b # bndls) =
     (case b of
        [] \<Rightarrow> Panic ''index out of range''
      | t0 # _ \<Rightarrow>
          (case tx_Persistence t0 of
             None \<Rightarrow> Panic ''nil pointer dereference''
           | Some p \<Rightarrow>
               if p then bundlesLoop S addr (tx_Bundle t0 # persisted) bndls
               else if tx_Bundle t0 \<in> set persisted then bundlesLoop S addr persisted bndls
               else if \<not> isDepositToAddr addr b then bundlesLoop S addr persisted bndls
               else
                 (case api_CheckConsistency S (tx_Hash t0) of
                    Inl e \<Rightarrow>
                      Return (False,
                        Some (Wrap e ''unable to check consistency of tx %s in incoming consistent transfer check''))
                  | Inr consistent \<Rightarrow>
                      if consistent then Return (True, None)
                      else bundlesLoop S addr persisted bndls)))"

definition hasIncomingConsistentValueTransfer ::
  "account \<Rightarrow> Hash \<Rightarrow> (bool \<times> error option) outcome" where
  "hasIncomingConsistentValueTransfer acc addr =
     (case api_GetBundlesFromAddresses (setts acc) [addr] True of
        Inl e \<Rightarrow> Return (False, Some e)
      | Inr bndls \<Rightarrow> bundlesLoop (setts acc) addr [] bndls)"

section \<open>The input selector\<close>

text \<open>
  \<^verbatim>\<open>defaultInputSelection\<close> returns \<^verbatim>\<open>(uint64, []api.Input, []uint64, error)\<close>; the model
  returns the same four values (nil slices are empty lists), or panics. Its three loops
  are three recursive functions. The closures \<^verbatim>\<open>markForRemoval\<close> and \<^verbatim>\<open>addAsInput\<close>
  take the slice they append to and return it.
\<close>

type_synonym SelectionResult = "uint64 \<times> Input list \<times> uint64 list \<times> error option"

definition index :: "'a list \<Rightarrow> nat \<Rightarrow> 'a outcome" where
  "index xs i = (if i < length xs then Return (xs ! i) else Panic ''index out of range'')"

definition markForRemoval :: "bool \<Rightarrow> uint64 list \<Rightarrow> uint64 \<Rightarrow> uint64 list" where
  "markForRemoval balanceCheck toRemove k = (if balanceCheck then toRemove else toRemove @ [k])"

definition addAsInput :: "bool \<Rightarrow> Input list \<Rightarrow> Input \<Rightarrow> Input list" where
  "addAsInput balanceCheck inputs input = (if balanceCheck then inputs else inputs @ [input])"

text \<open>\<^verbatim>\<open>addr, _ := address.GenerateAddress(seed, keyIndex, req.SecurityLevel, false)\<close>: the
  error is dropped, and \<^verbatim>\<open>GenerateAddress\<close> returns the empty string beside an error.\<close>

definition addressOf :: "Lib \<Rightarrow> Trytes \<Rightarrow> uint64 \<Rightarrow> StoredDepositRequest \<Rightarrow> Hash" where
  "addressOf L seed k r =
     (case GenerateAddress L seed k (SecurityLevel r) False of Inl _ \<Rightarrow> [] | Inr a \<Rightarrow> a)"

text \<open>The loop over the deposit requests (lines 471 to 508): the state is
  \<^verbatim>\<open>(primaryAddrs, primarySelection, secondaryAddrs, secondarySelection)\<close>. The message
  of its panic is written without the quotation marks around \<^verbatim>\<open>expected amount\<close>.\<close>

definition remainderPanic :: string where
  "remainderPanic = ''remainder address in system without expected amount''"

fun partitionLoop ::
  "Lib \<Rightarrow> Trytes \<Rightarrow> Time \<Rightarrow> (uint64 \<times> StoredDepositRequest) list \<Rightarrow>
   Hash list \<times> selection list \<times> Hash list \<times> selection list \<Rightarrow>
   (Hash list \<times> selection list \<times> Hash list \<times> selection list) outcome" where
  "partitionLoop L seed now [] st = Return st"
| "partitionLoop L seed now ((k, r) # rest) (pa, ps, sa, ss) =
     (case TimeoutAt (Request r) of
        None \<Rightarrow>
          if ExpectedAmount (Request r) = None
          then Panic remainderPanic
          else partitionLoop L seed now rest
                 (pa @ [addressOf L seed k r], ps @ [\<lparr>keyIndex = k, req = r\<rparr>], sa, ss)
      | Some t \<Rightarrow>
          if now > t
          then partitionLoop L seed now rest
                 (pa, ps, sa @ [addressOf L seed k r], ss @ [\<lparr>keyIndex = k, req = r\<rparr>])
          else if MultiUse (Request r) then
            (if ExpectedAmount (Request r) = None
             then partitionLoop L seed now rest (pa, ps, sa, ss)
             else partitionLoop L seed now rest
                    (pa @ [addressOf L seed k r], ps @ [\<lparr>keyIndex = k, req = r\<rparr>], sa, ss))
          else partitionLoop L seed now rest
                 (pa @ [addressOf L seed k r], ps @ [\<lparr>keyIndex = k, req = r\<rparr>], sa, ss))"

text \<open>The loop over \<^verbatim>\<open>primarySelection\<close> (lines 527 to 551), from position \<^verbatim>\<open>i\<close> on; the
  state is \<^verbatim>\<open>(sum, inputs, toRemove)\<close>. \<^verbatim>\<open>break\<close> returns the state.\<close>

fun primaryLoop ::
  "bool \<Rightarrow> uint64 \<Rightarrow> uint64 list \<Rightarrow> Hash list \<Rightarrow> nat \<Rightarrow> selection list \<Rightarrow>
   uint64 \<times> Input list \<times> uint64 list \<Rightarrow> (uint64 \<times> Input list \<times> uint64 list) outcome" where
  "primaryLoop balanceCheck transferValue balances primaryAddrs i [] st = Return st"
| "primaryLoop balanceCheck transferValue balances primaryAddrs i (s # rest) (sm, inputs, toRemove) =
     (case index balances i of
        Panic m \<Rightarrow> Panic m
      | Return b \<Rightarrow>
          if (case ExpectedAmount (Request (req s)) of None \<Rightarrow> False | Some ea \<Rightarrow> b < ea)
          then primaryLoop balanceCheck transferValue balances primaryAddrs (Suc i) rest
                 (sm, inputs, toRemove)
          else if b \<le> 0
          then primaryLoop balanceCheck transferValue balances primaryAddrs (Suc i) rest
                 (sm + b, inputs, toRemove)
          else
            (case index primaryAddrs i of
               Panic m \<Rightarrow> Panic m
             | Return a \<Rightarrow>
                 let inputs' = addAsInput balanceCheck inputs
                       \<lparr>in_Address = a, in_KeyIndex = keyIndex s, in_Balance = b,
                        in_Security = SecurityLevel (req s)\<rparr>;
                     toRemove' = markForRemoval balanceCheck toRemove (keyIndex s)
                 in if sm + b > transferValue \<and> \<not> balanceCheck
                    then Return (sm + b, inputs', toRemove')
                    else primaryLoop balanceCheck transferValue balances primaryAddrs (Suc i) rest
                           (sm + b, inputs', toRemove')))"

text \<open>The loop over \<^verbatim>\<open>secondarySelection\<close> (lines 558 to 586).\<close>

fun secondaryLoop ::
  "account \<Rightarrow> bool \<Rightarrow> uint64 \<Rightarrow> uint64 list \<Rightarrow> nat \<Rightarrow> Hash list \<Rightarrow> nat \<Rightarrow> selection list \<Rightarrow>
   uint64 \<times> Input list \<times> uint64 list \<Rightarrow> (uint64 \<times> Input list \<times> uint64 list) outcome" where
  "secondaryLoop acc balanceCheck transferValue balances startPosSecondary secondaryAddrs i [] st =
     Return st"
| "secondaryLoop acc balanceCheck transferValue balances startPosSecondary secondaryAddrs i
     (secSelect # rest) (sm, inputs, toRemove) =
     (case index secondaryAddrs i of
        Panic m \<Rightarrow> Panic m
      | Return addr \<Rightarrow>
          (case index balances (startPosSecondary + i) of
             Panic m \<Rightarrow> Panic m
           | Return balance \<Rightarrow>
               if balance = 0 then
                 (case hasIncomingConsistentValueTransfer acc addr of
                    Panic m \<Rightarrow> Panic m
                  | Return (has, err) \<Rightarrow>
                      if has \<or> err \<noteq> None
                      then secondaryLoop acc balanceCheck transferValue balances startPosSecondary
                             secondaryAddrs (Suc i) rest (sm, inputs, toRemove)
                      else secondaryLoop acc balanceCheck transferValue balances startPosSecondary
                             secondaryAddrs (Suc i) rest
                             (sm, inputs, markForRemoval balanceCheck toRemove (keyIndex secSelect)))
               else
                 let toRemove' = markForRemoval balanceCheck toRemove (keyIndex secSelect);
                     inputs' = addAsInput balanceCheck inputs
                       \<lparr>in_Address = addr, in_KeyIndex = keyIndex secSelect, in_Balance = balance,
                        in_Security = SecurityLevel (req secSelect)\<rparr>
                 in if sm + balance > transferValue \<and> \<not> balanceCheck
                    then Return (sm + balance, inputs', toRemove')
                    else secondaryLoop acc balanceCheck transferValue balances startPosSecondary
                           secondaryAddrs (Suc i) rest (sm + balance, inputs', toRemove')))"

definition defaultInputSelection ::
  "Lib \<Rightarrow> account \<Rightarrow> World \<Rightarrow> uint64 \<Rightarrow> bool \<Rightarrow> SelectionResult outcome" where
  "defaultInputSelection L acc w transferValue balanceCheck =
     (case store_GetDepositRequests (setts acc) w of
        Inl e \<Rightarrow>
          Return (0, [], [], Some (Wrap e ''unable to load account state for input selection''))
      | Inr depositRequests \<Rightarrow>
          if length depositRequests = 0 then
            (if balanceCheck then Return (0, [], [], None)
             else Return (0, [], [], Some ErrInsufficientBalance))
          else
            (case api_GetLatestSolidSubtangleMilestone (setts acc) of
               Inl e \<Rightarrow>
                 Return (0, [], [],
                   Some (Wrap e ''unable to fetch latest solid subtangle milestone for input selection''))
             | Inr subtangleHash \<Rightarrow>
                 (case clock_Now (setts acc) of
                    Inl e \<Rightarrow>
                      Return (0, [], [],
                        Some (Wrap e ''unable to get time for doing input selection''))
                  | Inr now \<Rightarrow>
                      (case seedProv_Seed (setts acc) of
                         Inl e \<Rightarrow>
                           Return (0, [], [],
                             Some (Wrap e ''unable to get seed from seed provider for doing input selection''))
                       | Inr seed \<Rightarrow>
                           (case partitionLoop L seed now depositRequests ([], [], [], []) of
                              Panic m \<Rightarrow> Panic m
                            | Return (primaryAddrs, primarySelection, secondaryAddrs, secondarySelection) \<Rightarrow>
                                (case api_GetBalances (setts acc) (primaryAddrs @ secondaryAddrs) 100
                                        subtangleHash of
                                   Inl e \<Rightarrow>
                                     Return (0, [], [],
                                       Some (Wrap e ''unable to fetch balances of primary selected addresses for input selection''))
                                 | Inr balances \<Rightarrow>
                                     (case primaryLoop balanceCheck transferValue balances primaryAddrs 0
                                             primarySelection (0, [], []) of
                                        Panic m \<Rightarrow> Panic m
                                      | Return (sm, inputs, toRemove) \<Rightarrow>
                                          (case (if sm < transferValue \<or> balanceCheck
                                                 then secondaryLoop acc balanceCheck transferValue balances
                                                        (length primarySelection) secondaryAddrs 0
                                                        secondarySelection (sm, inputs, toRemove)
                                                 else Return (sm, inputs, toRemove)) of
                                             Panic m \<Rightarrow> Panic m
                                           | Return (sm', inputs', toRemove') \<Rightarrow>
                                               if balanceCheck then Return (sm', [], [], None)
                                               else if sm' < transferValue
                                               then Return (0, [], [], Some ErrInsufficientBalance)
                                               else Return (sm', inputs', toRemove', None)))))))))"

section \<open>The account\<close>

text \<open>
  The settings' \<^verbatim>\<open>inputSelectionStrategy\<close> is a function of the account, which holds the
  settings: it is a parameter of the operations that call it. The default strategy is
  \<^verbatim>\<open>defaultInputSelection\<close>.
\<close>

type_synonym Strategy = "account \<Rightarrow> World \<Rightarrow> uint64 \<Rightarrow> bool \<Rightarrow> SelectionResult outcome"

definition Recipients_Sum :: "Transfer list \<Rightarrow> uint64" where
  "Recipients_Sum recps = foldl (\<lambda>sm target. sm + tr_Value target) 0 recps"

definition AsTransfers :: "Transfer list \<Rightarrow> Transfer list" where
  "AsTransfers recps = map (\<lambda>recipient. recipient) recps"

text \<open>Go's integer division truncates towards zero.\<close>

definition quot :: "int \<Rightarrow> int \<Rightarrow> int" where
  "quot a b = (if (a < 0) = (b < 0) then \<bar>a\<bar> div \<bar>b\<bar> else - (\<bar>a\<bar> div \<bar>b\<bar>))"

text \<open>\<^verbatim>\<open>UnixNano\<close> returns an \<^verbatim>\<open>int64\<close>: the count of nanoseconds, wrapped around to 64
  bits and read as a signed number.\<close>

definition UnixNano :: "Time \<Rightarrow> int" where
  "UnixNano t = sint (word_of_int t :: 64 word)"

subsection \<open>Plugins\<close>

fun startPluginsFrom :: "nat \<Rightarrow> Plugin list \<Rightarrow> World \<Rightarrow> error option \<times> World" where
  "startPluginsFrom i [] w = (None, w)"
| "startPluginsFrom i (p # ps) w =
     (case plugin_Start p of
        Some e \<Rightarrow> (Some (Wrap e ''unable to start plugin %T''), log (PluginStart i) w)
      | None \<Rightarrow> startPluginsFrom (Suc i) ps (log (PluginStart i) w))"

definition startPlugins :: "account \<Rightarrow> World \<Rightarrow> error option \<times> World" where
  "startPlugins acc w = startPluginsFrom 0 (plugins (setts acc)) w"

fun shutdownPluginsFrom :: "nat \<Rightarrow> Plugin list \<Rightarrow> World \<Rightarrow> error option \<times> World" where
  "shutdownPluginsFrom i [] w = (None, w)"
| "shutdownPluginsFrom i (p # ps) w =
     (case plugin_Shutdown p of
        Some e \<Rightarrow> (Some (Wrap e ''unable to shutdown plugin %T''), log (PluginShutdown i) w)
      | None \<Rightarrow> shutdownPluginsFrom (Suc i) ps (log (PluginShutdown i) w))"

definition shutdownPlugins :: "account \<Rightarrow> World \<Rightarrow> error option \<times> World" where
  "shutdownPlugins acc w = shutdownPluginsFrom 0 (plugins (setts acc)) w"

subsection \<open>The deposit allocator\<close>

definition allocateDepositRequest ::
  "Lib \<Rightarrow> account \<Rightarrow> World \<Rightarrow> Request \<Rightarrow> (error + Conditions) \<times> account \<times> World" where
  "allocateDepositRequest L acc w r =
     (case seedProv_Seed (setts acc) of
        Inl e \<Rightarrow> (Inl e, acc, w)
      | Inr seed \<Rightarrow>
          let acc1 = acc\<lparr>lastKeyIndex := lastKeyIndex acc + 1\<rparr> in
          (case GenerateAddress L seed (lastKeyIndex acc1) (securityLevel (setts acc1)) True of
             Inl e \<Rightarrow>
               (Inl (Wrap e ''unable to generate address in address gen. function''), acc1, w)
           | Inr addr \<Rightarrow>
               (case store_WriteIndex (setts acc1) w (lastKeyIndex acc1) of
                  (Some e, w1) \<Rightarrow>
                    (Inl (Wrap e ''unable to store next index (%d) in the store''), acc1, w1)
                | (None, w1) \<Rightarrow>
                    let storedReq = \<lparr>SecurityLevel = securityLevel (setts acc1), Request = r\<rparr> in
                    (case store_AddDepositRequest (setts acc1) w1 (lastKeyIndex acc1) storedReq of
                       (Some e, w2) \<Rightarrow> (Inl e, acc1, w2)
                     | (None, w2) \<Rightarrow>
                         (Inr \<lparr>cond_Address = addr, cond_Request = r\<rparr>, acc1, w2)))))"

subsection \<open>The send pipeline\<close>

text \<open>\<^verbatim>\<open>send\<close> from line 306 on, once the inputs, the indices for removal and the
  remainder address are known. The timestamp is
  \<^verbatim>\<open>uint64(currentTime.UnixNano() / int64(time.Second))\<close>: a signed 64-bit quotient,
  converted to \<^verbatim>\<open>uint64\<close>. \<^verbatim>\<open>powedTrytes[0]\<close> of an empty slice panics.\<close>

definition sendPrepared ::
  "Lib \<Rightarrow> account \<Rightarrow> World \<Rightarrow> Transfer list \<Rightarrow> Input list \<Rightarrow> uint64 list \<Rightarrow> Hash option \<Rightarrow>
   (error + Bundle) outcome \<times> account \<times> World" where
  "sendPrepared L acc w targets inputs forRemoval remainderAddress =
     (let transfers = AsTransfers targets in
      case clock_Now (setts acc) of
        Inl e \<Rightarrow> (Return (Inl (Wrap e ''unable to get current time in send op.'')), acc, w)
      | Inr currentTime \<Rightarrow>
          let ts = (word_of_int (quot (UnixNano currentTime) Second) :: uint64);
              opts = \<lparr>opt_Inputs = inputs, opt_RemainderAddress = remainderAddress,
                      opt_Timestamp = Some ts\<rparr>
          in
          (case seedProv_Seed (setts acc) of
             Inl e \<Rightarrow>
               (Return (Inl (Wrap e ''unable to get seed from seed provider in send op.'')), acc, w)
           | Inr seed \<Rightarrow>
               (case api_PrepareTransfers (setts acc) seed transfers opts of
                  Inl e \<Rightarrow>
                    (Return (Inl (Wrap e ''unable to prepare transfers in send op.'')), acc, w)
                | Inr bundleTrytes \<Rightarrow>
                    (case api_GetTransactionsToApprove (setts acc) (depth (setts acc)) of
                       Inl e \<Rightarrow> (Return (Inl (Wrap e ''unable to GTTA in send op.'')), acc, w)
                     | Inr tips \<Rightarrow>
                         (case api_AttachToTangle (setts acc) (TrunkTransaction tips)
                                 (BranchTransaction tips) (mwm (setts acc)) bundleTrytes of
                            Inl e \<Rightarrow>
                              (Return (Inl (Wrap e ''performing PoW in send op. failed'')), acc, w)
                          | Inr powedTrytes \<Rightarrow>
                              (case index powedTrytes 0 of
                                 Panic m \<Rightarrow> (Panic m, acc, w)
                               | Return tailTrytes \<Rightarrow>
                                   (case AsTransactionObject L tailTrytes of
                                      Inl e \<Rightarrow> (Return (Inl e), acc, w)
                                    | Inr tailTx \<Rightarrow>
                                        (case store_AddPendingTransfer (setts acc) w (tx_Hash tailTx)
                                                powedTrytes forRemoval of
                                           (Some e, w1) \<Rightarrow>
                                             (Return (Inl (Wrap e ''unable to store pending transfer in send op.'')),
                                              acc, w1)
                                         | (None, w1) \<Rightarrow>
                                             let w2 = log (StoreAndBroadcast powedTrytes) w1 in
                                             (case api_StoreAndBroadcast (setts acc) powedTrytes of
                                                Inl e \<Rightarrow>
                                                  (Return (Inl (Wrap e ''unable to store/broadcast bundle in send op.'')),
                                                   acc, w2)
                                              | Inr bndlTrytes \<Rightarrow>
                                                  (case AsTransactionObjects L bndlTrytes of
                                                     Inl e \<Rightarrow> (Return (Inl e), acc, w2)
                                                   | Inr bndl \<Rightarrow>
                                                       (Return (Inr bndl), acc,
                                                        log (Emit (EventSendingTransfer bndl)) w2)))))))))))"

definition send ::
  "Lib \<Rightarrow> Strategy \<Rightarrow> account \<Rightarrow> World \<Rightarrow> Transfer list \<Rightarrow>
   (error + Bundle) outcome \<times> account \<times> World" where
  "send L inputSelectionStrategy acc w targets =
     (let transferSum = Recipients_Sum targets in
      if transferSum > 0 then
        (case inputSelectionStrategy acc w transferSum False of
           Panic m \<Rightarrow> (Panic m, acc, w)
         | Return (sm, ins, rem, Some e) \<Rightarrow>
             (Return (Inl (Wrap e ''failed to perform input selection in send op.'')), acc, w)
         | Return (sm, ins, rem, None) \<Rightarrow>
             if sm > transferSum then
               (let remainder = sm - transferSum in
                case allocateDepositRequest L acc w
                       \<lparr>TimeoutAt = None, MultiUse = False, ExpectedAmount = Some remainder\<rparr> of
                  (Inl e, acc1, w1) \<Rightarrow>
                    (Return (Inl (Wrap e ''unable to generate remainder address in send op.'')),
                     acc1, w1)
                | (Inr depCond, acc1, w1) \<Rightarrow>
                    sendPrepared L acc1 w1 targets ins rem (Some (cond_Address depCond)))
             else sendPrepared L acc w targets ins rem None)
      else sendPrepared L acc w targets [] [] None)"

subsection \<open>The balance calculator\<close>

definition availableBalance ::
  "Strategy \<Rightarrow> account \<Rightarrow> World \<Rightarrow> (uint64 \<times> error option) outcome" where
  "availableBalance inputSelectionStrategy acc w =
     (case inputSelectionStrategy acc w 0 True of
        Panic m \<Rightarrow> Panic m
      | Return (balance, _, _, err) \<Rightarrow> Return (balance, err))"

definition totalBalance :: "Lib \<Rightarrow> account \<Rightarrow> World \<Rightarrow> error + uint64" where
  "totalBalance L acc w =
     (case store_LoadAccount (setts acc) w of
        Inl e \<Rightarrow> Inl (Wrap e ''unable to load account state for querying total balance'')
      | Inr state \<Rightarrow>
          if length (DepositRequests state) = 0 then Inr 0
          else
            (case api_GetLatestSolidSubtangleMilestone (setts acc) of
               Inl e \<Rightarrow>
                 Inl (Wrap e ''unable to fetch latest solid subtangle milestone for querying total balance'')
             | Inr subtangleHash \<Rightarrow>
                 (case seedProv_Seed (setts acc) of
                    Inl e \<Rightarrow>
                      Inl (Wrap e ''unable to get seed from seed provider for computing total balance'')
                  | Inr seed \<Rightarrow>
                      let addrs = map (\<lambda>(k, r). addressOf L seed k r) (DepositRequests state) in
                      (case api_GetBalances (setts acc) addrs 100 subtangleHash of
                         Inl e \<Rightarrow>
                           Inl (Wrap e ''unable to fetch balances for computing total balance'')
                       | Inr balances \<Rightarrow> Inr (foldl (\<lambda>sm balance. sm + balance) 0 balances)))))"

subsection \<open>The public operations\<close>

text \<open>\<^verbatim>\<open>acc.mu.Lock(); defer acc.mu.Unlock()\<close> and its read-lock variant: the unlock runs
  when the body returns, and when it panics.\<close>

definition withLock :: "(World \<Rightarrow> 'r \<times> account \<times> World) \<Rightarrow> World \<Rightarrow> 'r \<times> account \<times> World" where
  "withLock body w = (case body (log Lock w) of (r, acc', w') \<Rightarrow> (r, acc', log Unlock w'))"

definition withRLock :: "(World \<Rightarrow> 'r \<times> account \<times> World) \<Rightarrow> World \<Rightarrow> 'r \<times> account \<times> World" where
  "withRLock body w = (case body (log RLock w) of (r, acc', w') \<Rightarrow> (r, acc', log RUnlock w'))"

definition ID :: "account \<Rightarrow> string" where
  "ID acc = acc_id acc"

definition Send ::
  "Lib \<Rightarrow> Strategy \<Rightarrow> account \<Rightarrow> World \<Rightarrow> Transfer list \<Rightarrow>
   (error + Bundle) outcome \<times> account \<times> World" where
  "Send L inputSelectionStrategy acc w recipients =
     withLock (\<lambda>w.
       if \<not> running acc then (Return (Inl ErrAccountNotRunning), acc, w)
       else if length recipients = 0 then (Return (Inl ErrEmptyRecipients), acc, w)
       else if list_ex (\<lambda>target. \<not> IsTrytesOfExactLength L (tr_Address target)
                         (HashTrytesSize L + AddressChecksumTrytesSize L)) recipients
       then (Return (Inl ErrInvalidAddress), acc, w)
       else send L inputSelectionStrategy acc w recipients) w"

definition AllocateDepositRequest ::
  "Lib \<Rightarrow> account \<Rightarrow> World \<Rightarrow> Request \<Rightarrow> (error + Conditions) \<times> account \<times> World" where
  "AllocateDepositRequest L acc w r =
     withLock (\<lambda>w.
       if \<not> running acc then (Inl ErrAccountNotRunning, acc, w)
       else
         (case TimeoutAt r of
            None \<Rightarrow> (Inl ErrTimeoutNotSpecified, acc, w)
          | Some timeoutAt \<Rightarrow>
              (case clock_Now (setts acc) of
                 Inl e \<Rightarrow> (Inl e, acc, w)
               | Inr currentTime \<Rightarrow>
                   if timeoutAt + - (5 * Minute) < currentTime then (Inl ErrTimeoutTooLow, acc, w)
                   else allocateDepositRequest L acc w r))) w"

definition AvailableBalance ::
  "Strategy \<Rightarrow> account \<Rightarrow> World \<Rightarrow> (uint64 \<times> error option) outcome \<times> account \<times> World" where
  "AvailableBalance inputSelectionStrategy acc w =
     withRLock (\<lambda>w.
       if \<not> running acc then (Return (0, Some ErrAccountNotRunning), acc, w)
       else (availableBalance inputSelectionStrategy acc w, acc, w)) w"

definition TotalBalance :: "Lib \<Rightarrow> account \<Rightarrow> World \<Rightarrow> (error + uint64) \<times> account \<times> World" where
  "TotalBalance L acc w =
     withRLock (\<lambda>w.
       if \<not> running acc then (Inl ErrAccountNotRunning, acc, w)
       else (totalBalance L acc w, acc, w)) w"

definition IsNew :: "Lib \<Rightarrow> account \<Rightarrow> World \<Rightarrow> (error + bool) \<times> account \<times> World" where
  "IsNew L acc w =
     withRLock (\<lambda>w.
       if \<not> running acc then (Inl ErrAccountNotRunning, acc, w)
       else
         (case store_LoadAccount (setts acc) w of
            Inl e \<Rightarrow> (Inl e, acc, w)
          | Inr state \<Rightarrow> (Inr (AccountState_IsNew L state), acc, w))) w"

definition UpdateSettings :: "account \<Rightarrow> World \<Rightarrow> Settings \<Rightarrow> error option \<times> account \<times> World" where
  "UpdateSettings acc w newSetts =
     withLock (\<lambda>w.
       if \<not> running acc then (Some ErrAccountNotRunning, acc, w)
       else
         (case shutdownPlugins acc w of
            (Some e, w1) \<Rightarrow>
              (Some (Wrap e ''unable to shutdown plugin in update settings op.''), acc, w1)
          | (None, w1) \<Rightarrow>
              let acc1 = acc\<lparr>setts := newSetts\<rparr> in
              (case startPlugins acc1 w1 of
                 (Some e, w2) \<Rightarrow>
                   (Some (Wrap e ''unable to start plugin in update settings op.''), acc1, w2)
               | (None, w2) \<Rightarrow> (None, acc1, w2)))) w"

definition Start :: "account \<Rightarrow> World \<Rightarrow> error option \<times> account \<times> World" where
  "Start acc w =
     withLock (\<lambda>w.
       case store_LoadAccount (setts acc) w of
         Inl e \<Rightarrow> (Some (Wrap e ''unable to read latest used key index in startup''), acc, w)
       | Inr state \<Rightarrow>
           let acc1 = acc\<lparr>lastKeyIndex := KeyIndex state\<rparr> in
           (case startPlugins acc1 w of
              (Some e, w1) \<Rightarrow> (Some e, acc1, w1)
            | (None, w1) \<Rightarrow> (None, acc1\<lparr>running := True\<rparr>, w1))) w"

definition Shutdown :: "account \<Rightarrow> World \<Rightarrow> error option \<times> account \<times> World" where
  "Shutdown acc w =
     withLock (\<lambda>w.
       if \<not> running acc then (Some ErrAccountNotRunning, acc, w)
       else
         let acc1 = acc\<lparr>running := False\<rparr> in
         (case shutdownPlugins acc1 w of
            (Some e, w1) \<Rightarrow> (Some (Wrap e ''unable to shutdown plugin in shutdown op.''), acc1, w1)
          | (None, w1) \<Rightarrow> (None, acc1, log (Emit EventShutdown) w1))) w"

section \<open>Test doubles\<close>

text \<open>
  Concrete collaborators, for evaluating the operations: address generation names the
  addresses of key indices 1 and 2 \<open>A\<close> and \<open>B\<close>, which hold 40 and 70; every other
  address holds nothing; every collaborator answers, and the clock reads 0.
\<close>

definition L0 :: Lib where
  "L0 = \<lparr>GenerateAddress =
           (\<lambda>seed k lvl chk. Inr (if k = 1 then ''A'' else if k = 2 then ''B'' else ''C'')),
         IsTrytesOfExactLength = (\<lambda>t n. length t = n),
         HashTrytesSize = 1, AddressChecksumTrytesSize = 1,
         AsTransactionObject =
           (\<lambda>t. Inr \<lparr>tx_Hash = t, tx_Address = [], tx_Value = 0, tx_Bundle = [],
                      tx_Persistence = None\<rparr>),
         AsTransactionObjects =
           (\<lambda>ts. Inr (map (\<lambda>t. \<lparr>tx_Hash = t, tx_Address = [], tx_Value = 0, tx_Bundle = [],
                      tx_Persistence = None\<rparr>) ts)),
         AccountState_IsNew = (\<lambda>s. DepositRequests s = [] \<and> PendingTransfers s = [])\<rparr>"

definition S0 :: Settings where
  "S0 = \<lparr>seedProv_Seed = Inr ''SEED'', clock_Now = Inr 0,
         LoadAccount_fails = None, GetDepositRequests_fails = None,
         WriteIndex_fails = (\<lambda>_. None), AddDepositRequest_fails = (\<lambda>_ _. None),
         AddPendingTransfer_fails = (\<lambda>_ _ _. None),
         api_GetLatestSolidSubtangleMilestone = Inr ''M'',
         api_GetBalances =
           (\<lambda>addrs _ _. Inr (map (\<lambda>a. if a = ''A'' then 40 else if a = ''B'' then 70 else 0) addrs)),
         api_GetBundlesFromAddresses = (\<lambda>_ _. Inr []),
         api_CheckConsistency = (\<lambda>_. Inr True),
         api_PrepareTransfers = (\<lambda>_ _ _. Inr [''T0'', ''T1'']),
         api_GetTransactionsToApprove =
           (\<lambda>_. Inr \<lparr>TrunkTransaction = ''TRUNK'', BranchTransaction = ''BRANCH''\<rparr>),
         api_AttachToTangle = (\<lambda>_ _ _ ts. Inr ts),
         api_StoreAndBroadcast = (\<lambda>ts. Inr ts),
         plugins = [], securityLevel = 2, depth = 3, mwm = 14\<rparr>"

definition acc0 :: account where
  "acc0 = \<lparr>acc_id = ''ID'', running = True, setts = S0, lastKeyIndex = 2\<rparr>"

definition w0 :: World where
  "w0 = \<lparr>store = \<lparr>KeyIndex = 2, DepositRequests = [], PendingTransfers = []\<rparr>, trace = []\<rparr>"

text \<open>Requests without a timeout, with a timeout 2 minutes and 5 minutes after the
  clock's time.\<close>

definition r_none :: Request where
  "r_none = \<lparr>TimeoutAt = None, MultiUse = False, ExpectedAmount = None\<rparr>"

definition r_2min :: Request where
  "r_2min = \<lparr>TimeoutAt = Some (2 * Minute), MultiUse = False, ExpectedAmount = None\<rparr>"

definition r_5min :: Request where
  "r_5min = \<lparr>TimeoutAt = Some (5 * Minute), MultiUse = False, ExpectedAmount = None\<rparr>"

definition rs0 :: "Transfer list" where
  "rs0 = [\<lparr>tr_Address = ''XY'', tr_Value = 0\<rparr>]"

text \<open>A stopped account, and one whose store cannot keep a pending transfer.\<close>

definition acc_stopped :: account where
  "acc_stopped = acc0\<lparr>running := False\<rparr>"

definition acc_disk_full :: account where
  "acc_disk_full =
     acc0\<lparr>setts := S0\<lparr>AddPendingTransfer_fails := (\<lambda>_ _ _. Some (Collaborator ''disk full''))\<rparr>\<rparr>"

section \<open>Observations on traces\<close>

text \<open>
  \<open>persistAndBroadcast\<close> keeps of a trace the store's \<^verbatim>\<open>AddPendingTransfer\<close> and the
  ledger's \<^verbatim>\<open>StoreAndBroadcast\<close>. \<open>takesLock l u w w'\<close>: the trace of \<open>w'\<close> is that of
  \<open>w\<close> followed by at least two effects, the first \<open>l\<close> and the last \<open>u\<close>.
\<close>

fun isPersist :: "Effect \<Rightarrow> bool" where
  "isPersist (AddPendingTransfer _ _ _ _) = True"
| "isPersist _ = False"

fun isBroadcast :: "Effect \<Rightarrow> bool" where
  "isBroadcast (StoreAndBroadcast _) = True"
| "isBroadcast _ = False"

definition persistAndBroadcast :: "Effect list \<Rightarrow> Effect list" where
  "persistAndBroadcast t = filter (\<lambda>e. isPersist e \<or> isBroadcast e) t"

definition takesLock :: "Effect \<Rightarrow> Effect \<Rightarrow> World \<Rightarrow> World \<Rightarrow> bool" where
  "takesLock l u w w' =
     (let n = length (trace w); t = drop n (trace w')
      in take n (trace w') = trace w \<and> 2 \<le> length t \<and> hd t = l \<and> last t = u)"

section \<open>Notions for the send pipeline\<close>

text \<open>
  \<open>admitted\<close>: \<^verbatim>\<open>Send\<close> lets the call through to \<^verbatim>\<open>send\<close>, the account running, the
  recipients not empty and each of their addresses of the length of a hash with its
  checksum. \<open>selectionFor\<close>: the inputs, the key indices to free and the remainder
  address that \<^verbatim>\<open>send\<close> hands on, if it gets that far: none of them for a transfer of
  sum zero; else what the input selection strategy returns, with the address of a newly
  allocated remainder request when the selected sum exceeds the transfer's.
  \<open>preparedBundle\<close>: the tail hash and the trytes that come out of the preparation (the
  clock, the seed, \<^verbatim>\<open>PrepareTransfers\<close>, the tips, the proof of work), the tail hash being
  that of the first of the trytes. \<open>pendingTransferOf\<close>: the pending transfer to persist:
  that tail hash, those trytes, and the key indices to free. \<open>broadcastResult\<close>: what
  \<^verbatim>\<open>send\<close> returns once it has asked for the broadcast. \<open>submitted\<close>: what a run shows of
  the persistence and the broadcast, given the pending transfer to persist: nothing, when
  there is none; a refused \<^verbatim>\<open>AddPendingTransfer\<close> alone, and its error, when the store
  refuses it; else the \<^verbatim>\<open>AddPendingTransfer\<close>, then the \<^verbatim>\<open>StoreAndBroadcast\<close> of the
  same trytes, the pending transfer in the store and the freed indices out of it.
  \<open>rs100\<close>: a transfer of 100.
\<close>

definition admitted :: "Lib \<Rightarrow> account \<Rightarrow> Transfer list \<Rightarrow> bool" where
  "admitted L acc recipients =
     (running acc \<and> recipients \<noteq> [] \<and>
      list_all (\<lambda>target. IsTrytesOfExactLength L (tr_Address target)
                  (HashTrytesSize L + AddressChecksumTrytesSize L)) recipients)"

definition selectionFor ::
  "Lib \<Rightarrow> Strategy \<Rightarrow> account \<Rightarrow> World \<Rightarrow> Transfer list \<Rightarrow>
   (Input list \<times> uint64 list \<times> Hash option) option" where
  "selectionFor L strategy acc w targets =
     (if Recipients_Sum targets > 0 then
        (case strategy acc w (Recipients_Sum targets) False of
           Panic m \<Rightarrow> None
         | Return (sm, ins, rem, Some e) \<Rightarrow> None
         | Return (sm, ins, rem, None) \<Rightarrow>
             if sm > Recipients_Sum targets then
               (case allocateDepositRequest L acc w
                       \<lparr>TimeoutAt = None, MultiUse = False,
                        ExpectedAmount = Some (sm - Recipients_Sum targets)\<rparr> of
                  (Inl e, acc1, w1) \<Rightarrow> None
                | (Inr depCond, acc1, w1) \<Rightarrow> Some (ins, rem, Some (cond_Address depCond)))
             else Some (ins, rem, None))
      else Some ([], [], None))"

definition preparedBundle ::
  "Lib \<Rightarrow> Settings \<Rightarrow> Transfer list \<Rightarrow> Input list \<Rightarrow> Hash option \<Rightarrow>
   (Hash \<times> Trytes list) option" where
  "preparedBundle L S targets ins ra =
     (case clock_Now S of
        Inl e \<Rightarrow> None
      | Inr currentTime \<Rightarrow>
     (case seedProv_Seed S of
        Inl e \<Rightarrow> None
      | Inr seed \<Rightarrow>
     (case api_PrepareTransfers S seed (AsTransfers targets)
             \<lparr>opt_Inputs = ins, opt_RemainderAddress = ra,
              opt_Timestamp = Some (word_of_int (quot (UnixNano currentTime) Second))\<rparr> of
        Inl e \<Rightarrow> None
      | Inr bundleTrytes \<Rightarrow>
     (case api_GetTransactionsToApprove S (depth S) of
        Inl e \<Rightarrow> None
      | Inr tips \<Rightarrow>
     (case api_AttachToTangle S (TrunkTransaction tips) (BranchTransaction tips) (mwm S)
             bundleTrytes of
        Inl e \<Rightarrow> None
      | Inr powedTrytes \<Rightarrow>
          (case powedTrytes of
             [] \<Rightarrow> None
           | tail # rest \<Rightarrow>
               (case AsTransactionObject L tail of
                  Inl e \<Rightarrow> None
                | Inr tailTx \<Rightarrow> Some (tx_Hash tailTx, powedTrytes))))))))"

definition pendingTransferOf ::
  "Lib \<Rightarrow> Strategy \<Rightarrow> account \<Rightarrow> World \<Rightarrow> Transfer list \<Rightarrow> PendingTransfer option" where
  "pendingTransferOf L strategy acc w targets =
     (case selectionFor L strategy acc w targets of
        None \<Rightarrow> None
      | Some (ins, idx, ra) \<Rightarrow>
          (case preparedBundle L (setts acc) targets ins ra of
             None \<Rightarrow> None
           | Some (h, b) \<Rightarrow> Some \<lparr>pt_Tail = h, pt_Bundle = b, pt_Indices = idx\<rparr>))"

definition broadcastResult :: "Lib \<Rightarrow> Settings \<Rightarrow> Trytes list \<Rightarrow> (error + Bundle) outcome" where
  "broadcastResult L S b =
     (case api_StoreAndBroadcast S b of
        Inl e \<Rightarrow> Return (Inl (Wrap e ''unable to store/broadcast bundle in send op.''))
      | Inr bndlTrytes \<Rightarrow> Return (AsTransactionObjects L bndlTrytes))"

definition submitted ::
  "Lib \<Rightarrow> Settings \<Rightarrow> PendingTransfer option \<Rightarrow> Effect list \<Rightarrow> AccountState \<Rightarrow> AccountState \<Rightarrow>
   (error + Bundle) outcome \<Rightarrow> bool" where
  "submitted L S pending t s s' r =
     (case pending of
        None \<Rightarrow>
          persistAndBroadcast t = [] \<and> PendingTransfers s' = PendingTransfers s \<and>
          (\<forall>bndl. r \<noteq> Return (Inr bndl))
      | Some p \<Rightarrow>
          (case AddPendingTransfer_fails S (pt_Tail p) (pt_Bundle p) (pt_Indices p) of
             Some e \<Rightarrow>
               persistAndBroadcast t =
                 [AddPendingTransfer (pt_Tail p) (pt_Bundle p) (pt_Indices p) False] \<and>
               PendingTransfers s' = PendingTransfers s \<and>
               r = Return (Inl (Wrap e ''unable to store pending transfer in send op.''))
           | None \<Rightarrow>
               persistAndBroadcast t =
                 [AddPendingTransfer (pt_Tail p) (pt_Bundle p) (pt_Indices p) True,
                  StoreAndBroadcast (pt_Bundle p)] \<and>
               PendingTransfers s' = PendingTransfers s @ [p] \<and>
               (\<forall>k\<in>set (pt_Indices p). k \<notin> fst ` set (DepositRequests s')) \<and>
               r = broadcastResult L S (pt_Bundle p)))"

definition rs100 :: "Transfer list" where
  "rs100 = [\<lparr>tr_Address = ''XY'', tr_Value = 100\<rparr>]"

section \<open>Notions for the input selector\<close>

text \<open>
  \<open>unfunded\<close>: a stored request with neither a timeout nor an expected amount, on which
  the selector panics. \<open>reached s b\<close>: the balance \<open>b\<close> is not
  below the expected amount that the selected request declares. \<open>primarySum\<close>: the sum
  of the balances of the primary addresses whose expected amount is reached.
\<close>

definition unfunded :: "uint64 \<times> StoredDepositRequest \<Rightarrow> bool" where
  "unfunded kr = (TimeoutAt (Request (snd kr)) = None \<and> ExpectedAmount (Request (snd kr)) = None)"

definition reached :: "selection \<Rightarrow> uint64 \<Rightarrow> bool" where
  "reached s b = (case ExpectedAmount (Request (req s)) of None \<Rightarrow> True | Some ea \<Rightarrow> \<not> b < ea)"

definition primarySum :: "selection list \<Rightarrow> uint64 list \<Rightarrow> uint64" where
  "primarySum ps bs = sum_list (map snd (filter (\<lambda>(s, b). reached s b) (zip ps bs)))"

text \<open>Stores for the selector: two requests without timeout and expected amount; and a
  remainder request (key index 1, expecting 40) with two requests that timed out (key
  indices 3 and 2, in this order).\<close>

definition reqs_unfunded :: "(uint64 \<times> StoredDepositRequest) list" where
  "reqs_unfunded =
     [(1, \<lparr>SecurityLevel = 2, Request = r_none\<rparr>), (2, \<lparr>SecurityLevel = 2, Request = r_none\<rparr>)]"

definition w_unfunded :: World where
  "w_unfunded = w0\<lparr>store := (store w0)\<lparr>DepositRequests := reqs_unfunded\<rparr>\<rparr>"

definition acc_clock_down :: account where
  "acc_clock_down = acc0\<lparr>setts := S0\<lparr>clock_Now := Inl (Collaborator ''clock down'')\<rparr>\<rparr>"

definition dr_remainder :: StoredDepositRequest where
  "dr_remainder =
     \<lparr>SecurityLevel = 2,
      Request = \<lparr>TimeoutAt = None, MultiUse = False, ExpectedAmount = Some 40\<rparr>\<rparr>"

definition dr_timedout :: StoredDepositRequest where
  "dr_timedout =
     \<lparr>SecurityLevel = 2,
      Request = \<lparr>TimeoutAt = Some (- 1), MultiUse = False, ExpectedAmount = None\<rparr>\<rparr>"

definition reqs_mixed :: "(uint64 \<times> StoredDepositRequest) list" where
  "reqs_mixed = [(1, dr_remainder), (3, dr_timedout), (2, dr_timedout)]"

definition w_mixed :: World where
  "w_mixed = w0\<lparr>store := (store w0)\<lparr>DepositRequests := reqs_mixed\<rparr>\<rparr>"

text \<open>
  The partition of the stored requests, in the order the store yields them: \<open>timedOut\<close>
  requests are secondary; \<open>isPrimary\<close> are the requests without a timeout, and those not
  timed out that are single-use or declare an expected amount.
\<close>

definition timedOut :: "Time \<Rightarrow> uint64 \<times> StoredDepositRequest \<Rightarrow> bool" where
  "timedOut now kr = (case TimeoutAt (Request (snd kr)) of None \<Rightarrow> False | Some t \<Rightarrow> now > t)"

definition isPrimary :: "Time \<Rightarrow> uint64 \<times> StoredDepositRequest \<Rightarrow> bool" where
  "isPrimary now kr =
     (case TimeoutAt (Request (snd kr)) of
        None \<Rightarrow> True
      | Some t \<Rightarrow>
          \<not> now > t \<and> (MultiUse (Request (snd kr)) \<longrightarrow> ExpectedAmount (Request (snd kr)) \<noteq> None))"

definition selected :: "uint64 \<times> StoredDepositRequest \<Rightarrow> selection" where
  "selected kr = \<lparr>keyIndex = fst kr, req = snd kr\<rparr>"

definition primaryAddrsOf ::
  "Lib \<Rightarrow> Trytes \<Rightarrow> Time \<Rightarrow> (uint64 \<times> StoredDepositRequest) list \<Rightarrow> Hash list" where
  "primaryAddrsOf L seed now reqs =
     map (\<lambda>kr. addressOf L seed (fst kr) (snd kr)) (filter (isPrimary now) reqs)"

definition primarySelectionOf :: "Time \<Rightarrow> (uint64 \<times> StoredDepositRequest) list \<Rightarrow> selection list" where
  "primarySelectionOf now reqs = map selected (filter (isPrimary now) reqs)"

definition secondaryAddrsOf ::
  "Lib \<Rightarrow> Trytes \<Rightarrow> Time \<Rightarrow> (uint64 \<times> StoredDepositRequest) list \<Rightarrow> Hash list" where
  "secondaryAddrsOf L seed now reqs =
     map (\<lambda>kr. addressOf L seed (fst kr) (snd kr)) (filter (timedOut now) reqs)"

definition secondarySelectionOf :: "Time \<Rightarrow> (uint64 \<times> StoredDepositRequest) list \<Rightarrow> selection list" where
  "secondarySelectionOf now reqs = map selected (filter (timedOut now) reqs)"

text \<open>
  \<open>candidates\<close>: the primary selections, with address and balance, whose expected
  amount is reached and whose balance is not zero, in scan order. \<open>greedyPrefix tv sm\<close>:
  the candidates up to and including the first at which the running sum, from \<open>sm\<close> on,
  exceeds the target \<open>tv\<close>; all of them if it never does. \<open>primaryTotal\<close> and
  \<open>secondaryTotal\<close> add balances as natural numbers.
\<close>

definition candidates ::
  "selection list \<Rightarrow> Hash list \<Rightarrow> uint64 list \<Rightarrow> (selection \<times> Hash \<times> uint64) list" where
  "candidates ps pa bs = filter (\<lambda>(s, a, b). reached s b \<and> b \<noteq> 0) (zip ps (zip pa bs))"

fun greedyPrefix ::
  "uint64 \<Rightarrow> uint64 \<Rightarrow> (selection \<times> Hash \<times> uint64) list \<Rightarrow> (selection \<times> Hash \<times> uint64) list" where
  "greedyPrefix tv sm [] = []"
| "greedyPrefix tv sm ((s, a, b) # cs) =
     (if sm + b > tv then [(s, a, b)] else (s, a, b) # greedyPrefix tv (sm + b) cs)"

definition toInput :: "selection \<times> Hash \<times> uint64 \<Rightarrow> Input" where
  "toInput c =
     \<lparr>in_Address = fst (snd c), in_KeyIndex = keyIndex (fst c), in_Balance = snd (snd c),
      in_Security = SecurityLevel (req (fst c))\<rparr>"

definition balanceSum :: "(selection \<times> Hash \<times> uint64) list \<Rightarrow> uint64" where
  "balanceSum cs = sum_list (map (\<lambda>c. snd (snd c)) cs)"

definition primaryTotal :: "selection list \<Rightarrow> uint64 list \<Rightarrow> nat" where
  "primaryTotal ps bs =
     sum_list (map (\<lambda>(s, b). unat b) (filter (\<lambda>(s, b). reached s b) (zip ps bs)))"

definition secondaryTotal :: "selection list \<Rightarrow> uint64 list \<Rightarrow> nat" where
  "secondaryTotal ss bs = sum_list (map unat (take (length ss) bs))"

text \<open>Stores with the remainder requests of \<open>A\<close> and \<open>B\<close>, expecting their 40 and 70,
  yielded in either order; a store with one timed-out request; a transfer of 5; and an
  account whose node cannot list bundles.\<close>

definition dr_funded :: "uint64 \<Rightarrow> StoredDepositRequest" where
  "dr_funded amount =
     \<lparr>SecurityLevel = 2,
      Request = \<lparr>TimeoutAt = None, MultiUse = False, ExpectedAmount = Some amount\<rparr>\<rparr>"

definition reqs_AB :: "(uint64 \<times> StoredDepositRequest) list" where
  "reqs_AB = [(1, dr_funded 40), (2, dr_funded 70)]"

definition w_AB :: World where
  "w_AB = w0\<lparr>store := (store w0)\<lparr>DepositRequests := reqs_AB\<rparr>\<rparr>"

definition w_BA :: World where
  "w_BA = w0\<lparr>store := (store w0)\<lparr>DepositRequests := rev reqs_AB\<rparr>\<rparr>"

definition w_timedout :: World where
  "w_timedout = w0\<lparr>store := (store w0)\<lparr>DepositRequests := [(3, dr_timedout)]\<rparr>\<rparr>"

definition rs5 :: "Transfer list" where
  "rs5 = [\<lparr>tr_Address = ''XY'', tr_Value = 5\<rparr>]"

definition acc_node_down :: account where
  "acc_node_down =
     acc0\<lparr>setts := S0\<lparr>api_GetBundlesFromAddresses := (\<lambda>_ _. Inl (Collaborator ''node down''))\<rparr>\<rparr>"

definition input_A :: Input where
  "input_A = \<lparr>in_Address = ''A'', in_KeyIndex = 1, in_Balance = 40, in_Security = 2\<rparr>"

definition input_B :: Input where
  "input_B = \<lparr>in_Address = ''B'', in_KeyIndex = 2, in_Balance = 70, in_Security = 2\<rparr>"

section \<open>Notions for the deposit allocator\<close>

text \<open>
  \<open>allocateAll\<close> runs \<^verbatim>\<open>AllocateDepositRequest\<close> for a list of calls, one after the other;
  each call comes with the settings in force when it is made, so that the collaborators
  may answer each call differently. \<open>writtenIndices\<close> and \<open>requestIndices\<close> read from a
  trace the key indices that the store was asked to write (\<^verbatim>\<open>WriteIndex\<close>) and under
  which it was asked to add a deposit request (\<^verbatim>\<open>AddDepositRequest\<close>), in order.
\<close>

fun allocateAll :: "Lib \<Rightarrow> account \<Rightarrow> World \<Rightarrow> (Settings \<times> Request) list \<Rightarrow> account \<times> World" where
  "allocateAll L acc w [] = (acc, w)"
| "allocateAll L acc w ((S, r) # calls) =
     (case AllocateDepositRequest L (acc\<lparr>setts := S\<rparr>) w r of
        (_, acc', w') \<Rightarrow> allocateAll L acc' w' calls)"

fun writtenIndex :: "Effect \<Rightarrow> uint64 list" where
  "writtenIndex (WriteIndex k _) = [k]"
| "writtenIndex _ = []"

fun requestIndex :: "Effect \<Rightarrow> uint64 list" where
  "requestIndex (AddDepositRequest k _ _) = [k]"
| "requestIndex _ = []"

definition writtenIndices :: "Effect list \<Rightarrow> uint64 list" where
  "writtenIndices t = concat (map writtenIndex t)"

definition requestIndices :: "Effect list \<Rightarrow> uint64 list" where
  "requestIndices t = concat (map requestIndex t)"

text \<open>An account without seed; an account whose last key index is the largest
  \<^verbatim>\<open>uint64\<close>; and three calls, the second of which finds a store that cannot write the
  key index 4.\<close>

definition acc_seedless :: account where
  "acc_seedless = acc0\<lparr>setts := S0\<lparr>seedProv_Seed := Inl (Collaborator ''no seed'')\<rparr>\<rparr>"

definition acc_last :: account where
  "acc_last = acc0\<lparr>lastKeyIndex := - 1\<rparr>"

definition S_index4_fails :: Settings where
  "S_index4_fails =
     S0\<lparr>WriteIndex_fails := (\<lambda>k. if k = 4 then Some (Collaborator ''disk full'') else None)\<rparr>"

definition calls3 :: "(Settings \<times> Request) list" where
  "calls3 = [(S0, r_5min), (S_index4_fails, r_5min), (S0, r_5min)]"

section \<open>Notions for the consistency checker\<close>

text \<open>
  \<open>wellFormed\<close>: every fetched bundle has a first transaction, whose confirmation state
  is set. \<open>confirmedBefore bndls i\<close>: the bundle hashes of the confirmed bundles listed
  before position \<open>i\<close>. \<open>candidate addr persisted bndls i\<close>: the bundle at position \<open>i\<close>
  is unconfirmed, its bundle hash is neither in \<open>persisted\<close> nor that of a confirmed
  bundle listed before it, and it deposits a positive value into \<open>addr\<close>.
  \<open>firstConsistent\<close>: some candidate is reported consistent, and every candidate listed
  before it was reported inconsistent.
\<close>

definition wellFormed :: "Bundle list \<Rightarrow> bool" where
  "wellFormed bndls = list_all (\<lambda>b. b \<noteq> [] \<and> tx_Persistence (hd b) \<noteq> None) bndls"

definition confirmedBefore :: "Bundle list \<Rightarrow> nat \<Rightarrow> Hash list" where
  "confirmedBefore bndls i =
     map (\<lambda>b. tx_Bundle (hd b)) (filter (\<lambda>b. tx_Persistence (hd b) = Some True) (take i bndls))"

definition candidate :: "Hash \<Rightarrow> Hash list \<Rightarrow> Bundle list \<Rightarrow> nat \<Rightarrow> bool" where
  "candidate addr persisted bndls i =
     (tx_Persistence (hd (bndls ! i)) = Some False \<and>
      tx_Bundle (hd (bndls ! i)) \<notin> set persisted \<union> set (confirmedBefore bndls i) \<and>
      isDepositToAddr addr (bndls ! i))"

definition firstConsistent :: "Settings \<Rightarrow> Hash \<Rightarrow> Hash list \<Rightarrow> Bundle list \<Rightarrow> bool" where
  "firstConsistent S addr persisted bndls =
     (\<exists>i < length bndls.
        candidate addr persisted bndls i \<and>
        api_CheckConsistency S (tx_Hash (hd (bndls ! i))) = Inr True \<and>
        (\<forall>j < i. candidate addr persisted bndls j \<longrightarrow>
           api_CheckConsistency S (tx_Hash (hd (bndls ! j))) = Inr False))"

text \<open>An unconfirmed reattachment and a confirmed bundle of the same bundle hash, both
  depositing 5 into \<open>ADDR\<close>, listed by the node in either order.\<close>

definition bndl_reattachment :: Bundle where
  "bndl_reattachment =
     [\<lparr>tx_Hash = ''R'', tx_Address = ''ADDR'', tx_Value = 5, tx_Bundle = ''X'',
       tx_Persistence = Some False\<rparr>]"

definition bndl_confirmed :: Bundle where
  "bndl_confirmed =
     [\<lparr>tx_Hash = ''O'', tx_Address = ''ADDR'', tx_Value = 5, tx_Bundle = ''X'',
       tx_Persistence = Some True\<rparr>]"

definition acc_reattachment_first :: account where
  "acc_reattachment_first =
     acc0\<lparr>setts := S0\<lparr>api_GetBundlesFromAddresses :=
       (\<lambda>_ _. Inr [bndl_reattachment, bndl_confirmed])\<rparr>\<rparr>"

definition acc_confirmed_first :: account where
  "acc_confirmed_first =
     acc0\<lparr>setts := S0\<lparr>api_GetBundlesFromAddresses :=
       (\<lambda>_ _. Inr [bndl_confirmed, bndl_reattachment])\<rparr>\<rparr>"

section \<open>Timeout validation of the deposit allocator\<close>

text \<open>
  C4. \<^verbatim>\<open>AllocateDepositRequest\<close> on a running account rejects a request whose timeout is
  nil with \<^verbatim>\<open>ErrTimeoutNotSpecified\<close>; when the clock gives the time \<open>now\<close>, it rejects
  a timeout earlier than \<open>now\<close> plus 5 minutes with \<^verbatim>\<open>ErrTimeoutTooLow\<close>, and a timeout
  at least 5 minutes after \<open>now\<close> passes the validation: the call is then the
  allocation itself, under the lock. A rejected call changes neither the account nor the
  store.
\<close>

theorem AllocateDepositRequest_timeout_validation:
  "running acc \<Longrightarrow>
     (TimeoutAt r = None \<longrightarrow>
        AllocateDepositRequest L acc w r =
          (Inl ErrTimeoutNotSpecified, acc, log Unlock (log Lock w))) \<and>
     (\<forall>t now. TimeoutAt r = Some t \<and> clock_Now (setts acc) = Inr now \<longrightarrow>
        (t < now + 5 * Minute \<longrightarrow>
           AllocateDepositRequest L acc w r =
             (Inl ErrTimeoutTooLow, acc, log Unlock (log Lock w))) \<and>
        (now + 5 * Minute \<le> t \<longrightarrow>
           AllocateDepositRequest L acc w r =
             withLock (\<lambda>w. allocateDepositRequest L acc w r) w))"
  by (auto simp: AllocateDepositRequest_def withLock_def)

theorem AllocateDepositRequest_timeout_validation_witness:
  "running acc0 \<and> clock_Now (setts acc0) = Inr 0 \<and>
   AllocateDepositRequest L0 acc0 w0 r_none =
     (Inl ErrTimeoutNotSpecified, acc0, log Unlock (log Lock w0)) \<and>
   AllocateDepositRequest L0 acc0 w0 r_2min =
     (Inl ErrTimeoutTooLow, acc0, log Unlock (log Lock w0)) \<and>
   AllocateDepositRequest L0 acc0 w0 r_5min =
     withLock (\<lambda>w. allocateDepositRequest L0 acc0 w r_5min) w0 \<and>
   fst (AllocateDepositRequest L0 acc0 w0 r_5min) =
     Inr \<lparr>cond_Address = ''C'', cond_Request = r_5min\<rparr>"
proof -
  have run: "running acc0" and clk: "clock_Now (setts acc0) = Inr 0"
    by (simp_all add: acc0_def S0_def)
  have a: "AllocateDepositRequest L0 acc0 w0 r_none =
      (Inl ErrTimeoutNotSpecified, acc0, log Unlock (log Lock w0))"
    using AllocateDepositRequest_timeout_validation [OF run, of r_none L0 w0]
    by (simp add: r_none_def)
  have b: "AllocateDepositRequest L0 acc0 w0 r_2min =
      (Inl ErrTimeoutTooLow, acc0, log Unlock (log Lock w0))"
    using AllocateDepositRequest_timeout_validation [OF run, of r_2min L0 w0] clk
    by (simp add: r_2min_def Minute_def)
  have c: "AllocateDepositRequest L0 acc0 w0 r_5min =
      withLock (\<lambda>w. allocateDepositRequest L0 acc0 w r_5min) w0"
    using AllocateDepositRequest_timeout_validation [OF run, of r_5min L0 w0] clk
    by (simp add: r_5min_def Minute_def)
  have d: "fst (withLock (\<lambda>w. allocateDepositRequest L0 acc0 w r_5min) w0) =
      Inr \<lparr>cond_Address = ''C'', cond_Request = r_5min\<rparr>"
    by (simp add: withLock_def allocateDepositRequest_def acc0_def S0_def L0_def
        store_WriteIndex_def store_AddDepositRequest_def Let_def split: prod.splits)
  show ?thesis using run clk a b c d by simp
qed

section \<open>Traces of the operations\<close>

lemma store_WriteIndex_trace:
  "store_WriteIndex S w k = (r, w') \<Longrightarrow> \<exists>ok. trace w' = trace w @ [WriteIndex k ok]"
  by (auto simp: store_WriteIndex_def log_def split: option.splits)

lemma store_AddDepositRequest_trace:
  "store_AddDepositRequest S w k q = (r, w') \<Longrightarrow> \<exists>ok. trace w' = trace w @ [AddDepositRequest k q ok]"
  by (auto simp: store_AddDepositRequest_def log_def split: option.splits)

lemma allocateDepositRequest_trace:
  "allocateDepositRequest L acc w r = (res, acc', w') \<Longrightarrow>
     \<exists>t. trace w' = trace w @ t \<and> persistAndBroadcast t = []"
  by (auto simp: allocateDepositRequest_def Let_def persistAndBroadcast_def
      split: sum.splits prod.splits option.splits
      dest!: store_WriteIndex_trace store_AddDepositRequest_trace)

lemma sendPrepared_pending:
  "sendPrepared L acc w targets ins rem ra = (r, acc', w') \<Longrightarrow>
     acc' = acc \<and>
     (case preparedBundle L (setts acc) targets ins ra of
        None \<Rightarrow> w' = w \<and> (\<forall>bndl. r \<noteq> Return (Inr bndl))
      | Some (h, b) \<Rightarrow>
          (case AddPendingTransfer_fails (setts acc) h b rem of
             Some e \<Rightarrow>
               trace w' = trace w @ [AddPendingTransfer h b rem False] \<and> store w' = store w \<and>
               r = Return (Inl (Wrap e ''unable to store pending transfer in send op.''))
           | None \<Rightarrow>
               (\<exists>t'. trace w' =
                       trace w @ AddPendingTransfer h b rem True # StoreAndBroadcast b # t' \<and>
                     persistAndBroadcast t' = []) \<and>
               DepositRequests (store w') =
                 filter (\<lambda>(k, _). k \<notin> set rem) (DepositRequests (store w)) \<and>
               PendingTransfers (store w') =
                 PendingTransfers (store w) @ [\<lparr>pt_Tail = h, pt_Bundle = b, pt_Indices = rem\<rparr>] \<and>
               r = broadcastResult L (setts acc) b))"
proof -
  assume s: "sendPrepared L acc w targets ins rem ra = (r, acc', w')"
  let ?S = "setts acc"
  show ?thesis
  proof (cases "clock_Now ?S")
    case (Inl e)
    with s show ?thesis by (auto simp: sendPrepared_def preparedBundle_def Let_def)
  next
    case ct: (Inr currentTime)
    show ?thesis
    proof (cases "seedProv_Seed ?S")
      case (Inl e)
      with s ct show ?thesis by (auto simp: sendPrepared_def preparedBundle_def Let_def)
    next
      case sd: (Inr seed)
      show ?thesis
      proof (cases "api_PrepareTransfers ?S seed (AsTransfers targets)
             \<lparr>opt_Inputs = ins, opt_RemainderAddress = ra,
              opt_Timestamp = Some (word_of_int (quot (UnixNano currentTime) Second))\<rparr>")
        case (Inl e)
        with s ct sd show ?thesis
          by (auto simp: sendPrepared_def preparedBundle_def Let_def AsTransfers_def)
      next
        case bt: (Inr bundleTrytes)
        show ?thesis
        proof (cases "api_GetTransactionsToApprove ?S (depth ?S)")
          case (Inl e)
          with s ct sd bt show ?thesis
            by (auto simp: sendPrepared_def preparedBundle_def Let_def AsTransfers_def)
        next
          case tp: (Inr tips)
          show ?thesis
          proof (cases "api_AttachToTangle ?S (TrunkTransaction tips) (BranchTransaction tips)
                          (mwm ?S) bundleTrytes")
            case (Inl e)
            with s ct sd bt tp show ?thesis
              by (auto simp: sendPrepared_def preparedBundle_def Let_def AsTransfers_def)
          next
            case pw: (Inr powedTrytes)
            show ?thesis
            proof (cases powedTrytes)
              case Nil
              with s ct sd bt tp pw show ?thesis
                by (auto simp: sendPrepared_def preparedBundle_def Let_def AsTransfers_def
                    index_def)
            next
              case (Cons tailTrytes rest)
              show ?thesis
              proof (cases "AsTransactionObject L tailTrytes")
                case (Inl e)
                with s ct sd bt tp pw Cons show ?thesis
                  by (auto simp: sendPrepared_def preparedBundle_def Let_def AsTransfers_def
                      index_def)
              next
                case tx: (Inr tailTx)
                have p: "preparedBundle L ?S targets ins ra = Some (tx_Hash tailTx, powedTrytes)"
                  using ct sd bt tp pw Cons tx by (simp add: preparedBundle_def)
                show ?thesis
                proof (cases "AddPendingTransfer_fails ?S (tx_Hash tailTx) powedTrytes rem")
                  case (Some e)
                  with s ct sd bt tp pw Cons tx
                  have "acc' = acc \<and>
                        trace w' =
                          trace w @ [AddPendingTransfer (tx_Hash tailTx) powedTrytes rem False] \<and>
                        store w' = store w \<and>
                        r = Return (Inl (Wrap e ''unable to store pending transfer in send op.''))"
                    by (auto simp: sendPrepared_def Let_def AsTransfers_def index_def
                        store_AddPendingTransfer_def log_def)
                  then show ?thesis by (simp add: p Some)
                next
                  case None
                  with s ct sd bt tp pw Cons tx
                  have "acc' = acc \<and>
                        (\<exists>t'. trace w' =
                                 trace w @ AddPendingTransfer (tx_Hash tailTx) powedTrytes rem True #
                                 StoreAndBroadcast powedTrytes # t' \<and>
                              persistAndBroadcast t' = []) \<and>
                        DepositRequests (store w') =
                          filter (\<lambda>(k, _). k \<notin> set rem) (DepositRequests (store w)) \<and>
                        PendingTransfers (store w') =
                          PendingTransfers (store w) @
                          [\<lparr>pt_Tail = tx_Hash tailTx, pt_Bundle = powedTrytes, pt_Indices = rem\<rparr>] \<and>
                        r = broadcastResult L ?S powedTrytes"
                    by (auto simp: sendPrepared_def Let_def AsTransfers_def index_def
                        store_AddPendingTransfer_def log_def broadcastResult_def
                        persistAndBroadcast_def split: sum.splits)
                  then show ?thesis by (simp add: p None)
                qed
              qed
            qed
          qed
        qed
      qed
    qed
  qed
qed

lemma allocateDepositRequest_frame:
  "allocateDepositRequest L acc w q = (res, acc1, w1) \<Longrightarrow>
     setts acc1 = setts acc \<and> PendingTransfers (store w1) = PendingTransfers (store w) \<and>
     (\<exists>t. trace w1 = trace w @ t \<and> persistAndBroadcast t = [])"
  by (auto simp: allocateDepositRequest_def Let_def store_WriteIndex_def
      store_AddDepositRequest_def log_def persistAndBroadcast_def
      split: sum.splits option.splits prod.splits)

lemma filter_frees:
  "DepositRequests s' = filter (\<lambda>(k, _). k \<notin> set idx) (DepositRequests s) \<Longrightarrow>
     \<forall>k\<in>set idx. k \<notin> fst ` set (DepositRequests s')"
  by auto

lemma submitted_prepared:
  assumes sp: "sendPrepared L acc1 w1 targets ins rem ra = (r, acc', w')"
    and st: "setts acc1 = setts acc"
    and pt: "PendingTransfers (store w1) = PendingTransfers (store w)"
    and t1: "trace w1 = trace w @ t1" "persistAndBroadcast t1 = []"
    and sel: "selectionFor L strategy acc w targets = Some (ins, rem, ra)"
  shows "\<exists>t. trace w' = trace w @ t \<and>
     submitted L (setts acc) (pendingTransferOf L strategy acc w targets) t (store w) (store w') r"
proof (cases "preparedBundle L (setts acc) targets ins ra")
  case None
  then have pend: "pendingTransferOf L strategy acc w targets = None"
    by (simp add: pendingTransferOf_def sel)
  from sendPrepared_pending [OF sp] None st
  have "w' = w1" "\<forall>bndl. r \<noteq> Return (Inr bndl)" by simp_all
  then have "trace w' = trace w @ t1 \<and>
     submitted L (setts acc) None t1 (store w) (store w') r"
    using t1 pt by (simp add: submitted_def)
  then show ?thesis unfolding pend by (rule exI)
next
  case (Some hb)
  obtain h b where hb: "hb = (h, b)" by (cases hb)
  let ?p = "\<lparr>pt_Tail = h, pt_Bundle = b, pt_Indices = rem\<rparr>"
  have pend: "pendingTransferOf L strategy acc w targets = Some ?p"
    by (simp add: pendingTransferOf_def sel Some hb)
  show ?thesis
  proof (cases "AddPendingTransfer_fails (setts acc) h b rem")
    case fails: (Some e)
    from sendPrepared_pending [OF sp] Some hb st fails
    have f: "trace w' = trace w1 @ [AddPendingTransfer h b rem False]" "store w' = store w1"
         "r = Return (Inl (Wrap e ''unable to store pending transfer in send op.''))"
      by simp_all
    let ?t = "t1 @ [AddPendingTransfer h b rem False]"
    have "persistAndBroadcast ?t = [AddPendingTransfer h b rem False]"
      using t1(2) by (simp add: persistAndBroadcast_def)
    then have "trace w' = trace w @ ?t \<and>
       submitted L (setts acc) (Some ?p) ?t (store w) (store w') r"
      using f t1(1) pt fails by (simp add: submitted_def)
    then show ?thesis unfolding pend by (rule exI)
  next
    case None
    from sendPrepared_pending [OF sp] Some hb st None
    have f: "\<exists>t'. trace w' = trace w1 @ AddPendingTransfer h b rem True # StoreAndBroadcast b # t' \<and>
               persistAndBroadcast t' = []"
         "DepositRequests (store w') =
            filter (\<lambda>(k, _). k \<notin> set rem) (DepositRequests (store w1))"
         "PendingTransfers (store w') = PendingTransfers (store w1) @ [?p]"
         "r = broadcastResult L (setts acc) b"
      by simp_all
    from f(1) obtain t' where
      t': "trace w' = trace w1 @ AddPendingTransfer h b rem True # StoreAndBroadcast b # t'"
          "persistAndBroadcast t' = []" by blast
    let ?t = "t1 @ AddPendingTransfer h b rem True # StoreAndBroadcast b # t'"
    have pb: "persistAndBroadcast ?t = [AddPendingTransfer h b rem True, StoreAndBroadcast b]"
      using t1(2) t'(2) by (simp add: persistAndBroadcast_def)
    have fr: "\<forall>k\<in>set rem. k \<notin> fst ` set (DepositRequests (store w'))"
      using f(2) by (rule filter_frees)
    have "trace w' = trace w @ ?t \<and>
       submitted L (setts acc) (Some ?p) ?t (store w) (store w') r"
      using t'(1) t1(1) pb fr f(3,4) pt None by (simp add: submitted_def)
    then show ?thesis unfolding pend by (rule exI)
  qed
qed

lemma submitted_stopped:
  assumes "selectionFor L strategy acc w targets = None"
    and "trace w' = trace w @ t1" "persistAndBroadcast t1 = []"
    and "PendingTransfers (store w') = PendingTransfers (store w)"
    and "\<forall>bndl. r \<noteq> Return (Inr bndl)"
  shows "\<exists>t. trace w' = trace w @ t \<and>
     submitted L (setts acc) (pendingTransferOf L strategy acc w targets) t (store w) (store w') r"
proof -
  have pend: "pendingTransferOf L strategy acc w targets = None"
    by (simp add: pendingTransferOf_def assms(1))
  have "trace w' = trace w @ t1 \<and> submitted L (setts acc) None t1 (store w) (store w') r"
    using assms(2-5) by (simp add: submitted_def)
  then show ?thesis unfolding pend by (rule exI)
qed

lemma send_pending:
  "send L strategy acc w targets = (r, acc', w') \<Longrightarrow>
     \<exists>t. trace w' = trace w @ t \<and>
       submitted L (setts acc) (pendingTransferOf L strategy acc w targets) t (store w) (store w') r"
proof -
  assume s: "send L strategy acc w targets = (r, acc', w')"
  have nil: "trace w = trace w @ []" "persistAndBroadcast [] = []"
    by (simp_all add: persistAndBroadcast_def)
  show ?thesis
  proof (cases "Recipients_Sum targets > 0")
    case False
    with s have sp: "sendPrepared L acc w targets [] [] None = (r, acc', w')"
      by (simp add: send_def)
    have sel: "selectionFor L strategy acc w targets = Some ([], [], None)"
      using False by (simp add: selectionFor_def)
    show ?thesis by (rule submitted_prepared [OF sp refl refl nil sel])
  next
    case True
    show ?thesis
    proof (cases "strategy acc w (Recipients_Sum targets) False")
      case (Panic m)
      with s True have e: "w' = w" "r = Panic m" by (simp_all add: send_def)
      have sel: "selectionFor L strategy acc w targets = None"
        by (simp add: selectionFor_def True Panic)
      show ?thesis by (rule submitted_stopped [OF sel _ nil(2)]) (simp_all add: e)
    next
      case (Return res)
      obtain sm ins rem err where res: "res = (sm, ins, rem, err)" by (cases res)
      show ?thesis
      proof (cases err)
        case (Some e)
        with s True Return res have e: "w' = w"
          "r = Return (Inl (Wrap e ''failed to perform input selection in send op.''))"
          by (simp_all add: send_def)
        have sel: "selectionFor L strategy acc w targets = None"
          by (simp add: selectionFor_def True Return res Some)
        show ?thesis by (rule submitted_stopped [OF sel _ nil(2)]) (simp_all add: e)
      next
        case None
        show ?thesis
        proof (cases "sm > Recipients_Sum targets")
          case False
          with s True Return res None
          have sp: "sendPrepared L acc w targets ins rem None = (r, acc', w')"
            by (simp add: send_def)
          have sel: "selectionFor L strategy acc w targets = Some (ins, rem, None)"
            by (simp add: selectionFor_def True Return res None False)
          show ?thesis by (rule submitted_prepared [OF sp refl refl nil sel])
        next
          case gt: True
          obtain ar acc1 w1 where al: "allocateDepositRequest L acc w
              \<lparr>TimeoutAt = None, MultiUse = False,
               ExpectedAmount = Some (sm - Recipients_Sum targets)\<rparr> = (ar, acc1, w1)"
            by (metis prod_cases3)
          from allocateDepositRequest_frame [OF al] obtain t1 where
            fr: "setts acc1 = setts acc" "PendingTransfers (store w1) = PendingTransfers (store w)"
                "trace w1 = trace w @ t1" "persistAndBroadcast t1 = []"
            by blast
          show ?thesis
          proof (cases ar)
            case (Inl e)
            with s True Return res None gt al have e: "w' = w1"
              "r = Return (Inl (Wrap e ''unable to generate remainder address in send op.''))"
              by (simp_all add: send_def Let_def)
            have sel: "selectionFor L strategy acc w targets = None"
              by (simp add: selectionFor_def True Return res None gt al Inl)
            show ?thesis
              by (rule submitted_stopped [OF sel _ fr(4)]) (simp_all add: e fr)
          next
            case (Inr depCond)
            with s True Return res None gt al
            have sp: "sendPrepared L acc1 w1 targets ins rem (Some (cond_Address depCond)) =
                (r, acc', w')"
              by (simp add: send_def Let_def)
            have sel: "selectionFor L strategy acc w targets =
                Some (ins, rem, Some (cond_Address depCond))"
              by (simp add: selectionFor_def True Return res None gt al Inr)
            show ?thesis by (rule submitted_prepared [OF sp fr sel])
          qed
        qed
      qed
    qed
  qed
qed

lemma submitted_cong:
  "persistAndBroadcast t' = persistAndBroadcast t \<Longrightarrow>
     submitted L S p t' s s' r = submitted L S p t s s' r"
  by (simp add: submitted_def split: option.splits)

lemma admitted_iff:
  "admitted L acc recipients =
     (\<not> (\<not> running acc \<or> length recipients = 0 \<or>
         list_ex (\<lambda>target. \<not> IsTrytesOfExactLength L (tr_Address target)
                    (HashTrytesSize L + AddressChecksumTrytesSize L)) recipients))"
  by (auto simp: admitted_def list_ex_iff list_all_iff)

lemma Send_admitted:
  "admitted L acc recipients \<Longrightarrow>
     Send L strategy acc w recipients =
       (case send L strategy acc (log Lock w) recipients of
          (r, acc', w') \<Rightarrow> (r, acc', log Unlock w'))"
  by (simp add: Send_def withLock_def admitted_iff)

lemma startPluginsFrom_trace:
  "startPluginsFrom i ps w = (r, w') \<Longrightarrow> \<exists>t. trace w' = trace w @ t"
proof (induction ps arbitrary: i w r w')
  case Nil
  then show ?case by simp
next
  case (Cons p ps)
  show ?case
  proof (cases "plugin_Start p")
    case None
    with Cons.prems have "startPluginsFrom (Suc i) ps (log (PluginStart i) w) = (r, w')"
      by simp
    from Cons.IH [OF this] obtain t where "trace w' = trace (log (PluginStart i) w) @ t"
      by blast
    then have "trace w' = trace w @ (PluginStart i # t)" by (simp add: log_def)
    then show ?thesis by blast
  next
    case (Some e)
    with Cons.prems have "w' = log (PluginStart i) w" by simp
    then show ?thesis by (simp add: log_def)
  qed
qed

lemma shutdownPluginsFrom_trace:
  "shutdownPluginsFrom i ps w = (r, w') \<Longrightarrow> \<exists>t. trace w' = trace w @ t"
proof (induction ps arbitrary: i w r w')
  case Nil
  then show ?case by simp
next
  case (Cons p ps)
  show ?case
  proof (cases "plugin_Shutdown p")
    case None
    with Cons.prems have "shutdownPluginsFrom (Suc i) ps (log (PluginShutdown i) w) = (r, w')"
      by simp
    from Cons.IH [OF this] obtain t where "trace w' = trace (log (PluginShutdown i) w) @ t"
      by blast
    then have "trace w' = trace w @ (PluginShutdown i # t)" by (simp add: log_def)
    then show ?thesis by blast
  next
    case (Some e)
    with Cons.prems have "w' = log (PluginShutdown i) w" by simp
    then show ?thesis by (simp add: log_def)
  qed
qed

lemma send_grows:
  "send L strategy acc w targets = (r, acc', w') \<Longrightarrow> \<exists>t. trace w' = trace w @ t"
  using send_pending by blast

lemma allocate_grows:
  "allocateDepositRequest L acc w q = (r, acc', w') \<Longrightarrow> \<exists>t. trace w' = trace w @ t"
  using allocateDepositRequest_trace by blast

lemma takesLockI: "trace w' = trace w @ l # mid @ [u] \<Longrightarrow> takesLock l u w w'"
  by (simp add: takesLock_def Let_def)

lemma withLock_takesLock:
  "(\<And>r a w1. body (log Lock w) = (r, a, w1) \<Longrightarrow> \<exists>t. trace w1 = trace (log Lock w) @ t) \<Longrightarrow>
   takesLock Lock Unlock w (snd (snd (withLock body w)))"
proof -
  assume ext: "\<And>r a w1. body (log Lock w) = (r, a, w1) \<Longrightarrow> \<exists>t. trace w1 = trace (log Lock w) @ t"
  obtain r a w1 where b: "body (log Lock w) = (r, a, w1)" by (metis prod_cases3)
  from ext [OF b] obtain t where "trace w1 = trace (log Lock w) @ t" by blast
  then have "trace (snd (snd (withLock body w))) = trace w @ Lock # t @ [Unlock]"
    using b by (simp add: withLock_def log_def)
  then show ?thesis by (rule takesLockI)
qed

lemma withRLock_takesLock:
  "(\<And>r a w1. body (log RLock w) = (r, a, w1) \<Longrightarrow> \<exists>t. trace w1 = trace (log RLock w) @ t) \<Longrightarrow>
   takesLock RLock RUnlock w (snd (snd (withRLock body w)))"
proof -
  assume ext: "\<And>r a w1. body (log RLock w) = (r, a, w1) \<Longrightarrow> \<exists>t. trace w1 = trace (log RLock w) @ t"
  obtain r a w1 where b: "body (log RLock w) = (r, a, w1)" by (metis prod_cases3)
  from ext [OF b] obtain t where "trace w1 = trace (log RLock w) @ t" by blast
  then have "trace (snd (snd (withRLock body w))) = trace w @ RLock # t @ [RUnlock]"
    using b by (simp add: withRLock_def log_def)
  then show ?thesis by (rule takesLockI)
qed

section \<open>The lock and the running flag\<close>

lemma Shutdown_takesLock: "takesLock Lock Unlock w (snd (snd (Shutdown acc w)))"
  unfolding Shutdown_def
  by (rule withLock_takesLock)
     (auto simp: shutdownPlugins_def Let_def log_def split: if_splits prod.splits option.splits
       dest!: shutdownPluginsFrom_trace)

lemma Start_takesLock: "takesLock Lock Unlock w (snd (snd (Start acc w)))"
  unfolding Start_def
  by (rule withLock_takesLock)
     (auto simp: startPlugins_def Let_def split: if_splits prod.splits option.splits sum.splits
       dest!: startPluginsFrom_trace)

lemma UpdateSettings_takesLock: "takesLock Lock Unlock w (snd (snd (UpdateSettings acc w S)))"
  unfolding UpdateSettings_def
  by (rule withLock_takesLock)
     (auto simp: startPlugins_def shutdownPlugins_def Let_def
       split: if_splits prod.splits option.splits sum.splits
       dest!: startPluginsFrom_trace shutdownPluginsFrom_trace)

lemma Send_takesLock: "takesLock Lock Unlock w (snd (snd (Send L st acc w rs)))"
  unfolding Send_def
  by (rule withLock_takesLock) (auto split: if_splits dest!: send_grows)

lemma AllocateDepositRequest_takesLock:
  "takesLock Lock Unlock w (snd (snd (AllocateDepositRequest L acc w q)))"
  unfolding AllocateDepositRequest_def
  by (rule withLock_takesLock)
     (auto split: if_splits option.splits sum.splits dest!: allocate_grows)

lemma AvailableBalance_takesLock:
  "takesLock RLock RUnlock w (snd (snd (AvailableBalance st acc w)))"
  unfolding AvailableBalance_def
  by (rule withRLock_takesLock) (auto split: if_splits)

lemma TotalBalance_takesLock:
  "takesLock RLock RUnlock w (snd (snd (TotalBalance L acc w)))"
  unfolding TotalBalance_def
  by (rule withRLock_takesLock) (auto split: if_splits)

lemma IsNew_takesLock:
  "takesLock RLock RUnlock w (snd (snd (IsNew L acc w)))"
  unfolding IsNew_def
  by (rule withRLock_takesLock) (auto split: if_splits sum.splits)

lemma Start_ignores_running:
  "fst (Start (acc\<lparr>running := b\<rparr>) w) = fst (Start acc w)"
  by (simp add: Start_def withLock_def store_LoadAccount_def startPlugins_def Let_def
      split: option.splits prod.splits)

lemma Start_sets_running:
  "fst (Start acc w) = None \<Longrightarrow> running (fst (snd (Start acc w)))"
  by (auto simp: Start_def withLock_def store_LoadAccount_def startPlugins_def Let_def
      split: option.splits prod.splits)

lemma Start_stopped_eval:
  "Start acc_stopped w0 =
     (None, acc_stopped\<lparr>lastKeyIndex := 2, running := True\<rparr>, log Unlock (log Lock w0))"
  by (simp add: Start_def withLock_def store_LoadAccount_def startPlugins_def Let_def
      acc_stopped_def acc0_def S0_def w0_def log_def)

text \<open>
  C6, as the claim states it, fails for \<^verbatim>\<open>Start\<close>: on a stopped account whose store
  and plugins answer, \<^verbatim>\<open>Start\<close> returns no error and sets the running flag.
\<close>

theorem Start_on_stopped_account_counterexample:
  "\<not> running acc_stopped \<and>
   Start acc_stopped w0 =
     (None, acc_stopped\<lparr>lastKeyIndex := 2, running := True\<rparr>, log Unlock (log Lock w0)) \<and>
   fst (Start acc_stopped w0) \<noteq> Some ErrAccountNotRunning"
  by (simp add: Start_stopped_eval) (simp add: acc_stopped_def acc0_def)

text \<open>
  C6, amended. \<^verbatim>\<open>Shutdown\<close>, \<^verbatim>\<open>Send\<close>, \<^verbatim>\<open>AllocateDepositRequest\<close> and \<^verbatim>\<open>UpdateSettings\<close>
  (under the exclusive lock) and \<^verbatim>\<open>AvailableBalance\<close>, \<^verbatim>\<open>TotalBalance\<close> and \<^verbatim>\<open>IsNew\<close>
  (under the shared lock) reject with \<^verbatim>\<open>ErrAccountNotRunning\<close> whenever the running flag
  is false, and then change neither the account nor the store; each of them, and
  \<^verbatim>\<open>Start\<close>, takes its lock first and releases it last, in every state. \<^verbatim>\<open>Start\<close> does
  not look at the running flag: it returns the same error or nil whatever the flag is,
  and sets the flag when it returns nil. \<^verbatim>\<open>ID\<close> returns the identifier, with no lock and
  no check.
\<close>

theorem public_operations_lock_and_running_check:
  "(\<not> running acc \<longrightarrow>
      Shutdown acc w = (Some ErrAccountNotRunning, acc, log Unlock (log Lock w)) \<and>
      Send L st acc w rs = (Return (Inl ErrAccountNotRunning), acc, log Unlock (log Lock w)) \<and>
      AllocateDepositRequest L acc w q = (Inl ErrAccountNotRunning, acc, log Unlock (log Lock w)) \<and>
      UpdateSettings acc w S = (Some ErrAccountNotRunning, acc, log Unlock (log Lock w)) \<and>
      AvailableBalance st acc w =
        (Return (0, Some ErrAccountNotRunning), acc, log RUnlock (log RLock w)) \<and>
      TotalBalance L acc w = (Inl ErrAccountNotRunning, acc, log RUnlock (log RLock w)) \<and>
      IsNew L acc w = (Inl ErrAccountNotRunning, acc, log RUnlock (log RLock w))) \<and>
   takesLock Lock Unlock w (snd (snd (Shutdown acc w))) \<and>
   takesLock Lock Unlock w (snd (snd (Send L st acc w rs))) \<and>
   takesLock Lock Unlock w (snd (snd (AllocateDepositRequest L acc w q))) \<and>
   takesLock Lock Unlock w (snd (snd (UpdateSettings acc w S))) \<and>
   takesLock Lock Unlock w (snd (snd (Start acc w))) \<and>
   takesLock RLock RUnlock w (snd (snd (AvailableBalance st acc w))) \<and>
   takesLock RLock RUnlock w (snd (snd (TotalBalance L acc w))) \<and>
   takesLock RLock RUnlock w (snd (snd (IsNew L acc w))) \<and>
   fst (Start (acc\<lparr>running := b\<rparr>) w) = fst (Start acc w) \<and>
   (fst (Start acc w) = None \<longrightarrow> running (fst (snd (Start acc w)))) \<and>
   ID acc = acc_id acc"
proof -
  have stopped: "\<not> running acc \<longrightarrow>
      Shutdown acc w = (Some ErrAccountNotRunning, acc, log Unlock (log Lock w)) \<and>
      Send L st acc w rs = (Return (Inl ErrAccountNotRunning), acc, log Unlock (log Lock w)) \<and>
      AllocateDepositRequest L acc w q = (Inl ErrAccountNotRunning, acc, log Unlock (log Lock w)) \<and>
      UpdateSettings acc w S = (Some ErrAccountNotRunning, acc, log Unlock (log Lock w)) \<and>
      AvailableBalance st acc w =
        (Return (0, Some ErrAccountNotRunning), acc, log RUnlock (log RLock w)) \<and>
      TotalBalance L acc w = (Inl ErrAccountNotRunning, acc, log RUnlock (log RLock w)) \<and>
      IsNew L acc w = (Inl ErrAccountNotRunning, acc, log RUnlock (log RLock w))"
    by (simp add: Shutdown_def Send_def AllocateDepositRequest_def UpdateSettings_def
        AvailableBalance_def TotalBalance_def IsNew_def withLock_def withRLock_def)
  show ?thesis
    using stopped Shutdown_takesLock Send_takesLock AllocateDepositRequest_takesLock
      UpdateSettings_takesLock Start_takesLock AvailableBalance_takesLock TotalBalance_takesLock
      IsNew_takesLock Start_ignores_running Start_sets_running
    by (simp add: ID_def)
qed

theorem public_operations_lock_and_running_check_witness:
  "\<not> running acc_stopped \<and>
   Shutdown acc_stopped w0 = (Some ErrAccountNotRunning, acc_stopped, log Unlock (log Lock w0)) \<and>
   Send L0 (defaultInputSelection L0) acc_stopped w0 rs0 =
     (Return (Inl ErrAccountNotRunning), acc_stopped, log Unlock (log Lock w0)) \<and>
   AvailableBalance (defaultInputSelection L0) acc_stopped w0 =
     (Return (0, Some ErrAccountNotRunning), acc_stopped, log RUnlock (log RLock w0)) \<and>
   fst (Start acc_stopped w0) = None \<and> running (fst (snd (Start acc_stopped w0))) \<and>
   takesLock Lock Unlock w0 (snd (snd (Start acc_stopped w0)))"
proof -
  have st: "\<not> running acc_stopped" by (simp add: acc_stopped_def)
  have ok: "fst (Start acc_stopped w0) = None" by (simp add: Start_stopped_eval)
  show ?thesis
    using public_operations_lock_and_running_check
      [of acc_stopped w0 L0 "defaultInputSelection L0" rs0 r_5min S0 True] st ok
    by simp
qed

section \<open>The loops of the input selector\<close>

lemma partitionLoop_lengths:
  "partitionLoop L seed now reqs (pa, ps, sa, ss) = Return (pa', ps', sa', ss') \<Longrightarrow>
   length pa = length ps \<Longrightarrow> length sa = length ss \<Longrightarrow>
   length pa' = length ps' \<and> length sa' = length ss'"
proof (induction reqs arbitrary: pa ps sa ss)
  case Nil
  then show ?case by simp
next
  case (Cons kr reqs)
  obtain k r where kr: "kr = (k, r)" by (cases kr)
  show ?case
    using Cons.prems unfolding kr
    by (auto split: option.splits if_splits dest!: Cons.IH)
qed

lemma partitionLoop_panics:
  "list_ex unfunded reqs \<Longrightarrow> partitionLoop L seed now reqs st = Panic remainderPanic"
proof (induction reqs arbitrary: st)
  case Nil
  then show ?case by simp
next
  case (Cons kr reqs)
  obtain k r where kr: "kr = (k, r)" by (cases kr)
  obtain pa ps sa ss where st: "st = (pa, ps, sa, ss)" by (metis prod_cases4)
  show ?case
  proof (cases "unfunded kr")
    case True
    then show ?thesis by (simp add: kr st unfunded_def remainderPanic_def)
  next
    case False
    with Cons.prems have "list_ex unfunded reqs" by simp
    then have "\<And>st. partitionLoop L seed now reqs st = Panic remainderPanic" by (rule Cons.IH)
    then show ?thesis using False by (auto simp: kr st unfunded_def split: option.splits)
  qed
qed

lemma partitionLoop_returns:
  "\<not> list_ex unfunded reqs \<Longrightarrow> \<exists>st'. partitionLoop L seed now reqs st = Return st'"
proof (induction reqs arbitrary: st)
  case Nil
  show ?case by (simp del: split_paired_Ex)
next
  case (Cons kr reqs)
  obtain k r where kr: "kr = (k, r)" by (cases kr)
  obtain pa ps sa ss where st: "st = (pa, ps, sa, ss)" by (metis prod_cases4)
  from Cons.prems have nu: "\<not> unfunded kr" and rest: "\<not> list_ex unfunded reqs" by simp_all
  have ih: "\<And>st. \<exists>st'. partitionLoop L seed now reqs st = Return st'"
    using Cons.IH [OF rest] .
  show ?case using nu ih
    by (auto simp del: split_paired_Ex simp: kr st unfunded_def split: option.splits)
qed

lemma partitionLoop_panic_iff:
  "(\<exists>m. partitionLoop L seed now reqs st = Panic m) \<longleftrightarrow> list_ex unfunded reqs"
proof
  assume p: "\<exists>m. partitionLoop L seed now reqs st = Panic m"
  show "list_ex unfunded reqs"
  proof (rule ccontr)
    assume "\<not> list_ex unfunded reqs"
    from partitionLoop_returns [OF this, of L seed now st] p show False by auto
  qed
next
  assume "list_ex unfunded reqs"
  then show "\<exists>m. partitionLoop L seed now reqs st = Panic m"
    using partitionLoop_panics by blast
qed

lemma primaryLoop_probe_frame:
  "primaryLoop True tv balances pa i ps (sm, ins, rem) = Return (sm', ins', rem') \<Longrightarrow>
   ins' = ins \<and> rem' = rem"
proof (induction ps arbitrary: i sm)
  case Nil
  then show ?case by simp
next
  case (Cons s ps)
  then show ?case
    by (auto simp: addAsInput_def markForRemoval_def Let_def
        split: outcome.splits if_splits option.splits)
qed

lemma secondaryLoop_probe_frame:
  "secondaryLoop acc True tv balances start sa i ss (sm, ins, rem) = Return (sm', ins', rem') \<Longrightarrow>
   ins' = ins \<and> rem' = rem"
proof (induction ss arbitrary: i sm)
  case Nil
  then show ?case by simp
next
  case (Cons s ss)
  then show ?case
    by (auto simp: addAsInput_def markForRemoval_def Let_def
        split: outcome.splits if_splits option.splits prod.splits)
qed

lemma primaryLoop_probe_sum:
  "i + length ps \<le> length balances \<Longrightarrow> i + length ps \<le> length pa \<Longrightarrow>
   primaryLoop True tv balances pa i ps (sm, ins, rem) =
     Return (sm + primarySum ps (drop i balances), ins, rem)"
proof (induction ps arbitrary: i sm)
  case Nil
  then show ?case by (simp add: primarySum_def)
next
  case (Cons s ps)
  from Cons.prems have i: "i < length balances" "i < length pa"
    and next_ok: "Suc i + length ps \<le> length balances" "Suc i + length ps \<le> length pa"
    by simp_all
  have dr: "drop i balances = balances ! i # drop (Suc i) balances"
    using i by (simp add: Cons_nth_drop_Suc)
  have ih: "\<And>sm. primaryLoop True tv balances pa (Suc i) ps (sm, ins, rem) =
     Return (sm + primarySum ps (drop (Suc i) balances), ins, rem)"
    using Cons.IH [OF next_ok] .
  show ?case
    using i
    by (simp add: index_def dr ih primarySum_def reached_def addAsInput_def markForRemoval_def
        Let_def add.assoc split: option.splits)
qed

lemma secondaryLoop_probe_sum:
  "start + i + length ss \<le> length balances \<Longrightarrow> i + length ss \<le> length sa \<Longrightarrow>
   \<forall>a \<in> set (drop i sa). \<forall>m. hasIncomingConsistentValueTransfer acc a \<noteq> Panic m \<Longrightarrow>
   secondaryLoop acc True tv balances start sa i ss (sm, ins, rem) =
     Return (sm + sum_list (take (length ss) (drop (start + i) balances)), ins, rem)"
proof (induction ss arbitrary: i sm)
  case Nil
  then show ?case by simp
next
  case (Cons s ss)
  from Cons.prems have i: "start + i < length balances" "i < length sa"
    and next_ok: "start + Suc i + length ss \<le> length balances" "Suc i + length ss \<le> length sa"
    by simp_all
  have dr: "drop (start + i) balances = balances ! (start + i) # drop (Suc (start + i)) balances"
    using i by (simp add: Cons_nth_drop_Suc)
  have dra: "drop i sa = sa ! i # drop (Suc i) sa"
    using i by (simp add: Cons_nth_drop_Suc)
  have np: "\<forall>a \<in> set (drop (Suc i) sa). \<forall>m. hasIncomingConsistentValueTransfer acc a \<noteq> Panic m"
    and np0: "\<forall>m. hasIncomingConsistentValueTransfer acc (sa ! i) \<noteq> Panic m"
    using Cons.prems(3) unfolding dra by simp_all
  have ih: "\<And>sm. secondaryLoop acc True tv balances start sa (Suc i) ss (sm, ins, rem) =
     Return (sm + sum_list (take (length ss) (drop (start + Suc i) balances)), ins, rem)"
    using Cons.IH [OF next_ok np] .
  show ?case
  proof (cases "balances ! (start + i) = 0")
    case True
    obtain has err where "hasIncomingConsistentValueTransfer acc (sa ! i) = Return (has, err)"
      using np0 by (cases "hasIncomingConsistentValueTransfer acc (sa ! i)") auto
    then show ?thesis
      using i True by (simp add: index_def dr ih markForRemoval_def)
  next
    case False
    then show ?thesis
      using i by (simp add: index_def dr ih markForRemoval_def addAsInput_def Let_def add.assoc)
  qed
qed

lemma acc0_collaborators:
  "api_GetLatestSolidSubtangleMilestone (setts acc0) = Inr ''M''"
  "clock_Now (setts acc0) = Inr 0"
  "seedProv_Seed (setts acc0) = Inr ''SEED''"
  "running acc0"
  by (simp_all add: acc0_def S0_def)

lemma acc0_no_bundles: "hasIncomingConsistentValueTransfer acc0 a = Return (False, None)"
  by (simp add: hasIncomingConsistentValueTransfer_def acc0_def S0_def)

lemma partition_mixed:
  "partitionLoop L0 ''SEED'' 0 reqs_mixed ([], [], [], []) =
     Return ([''A''], [\<lparr>keyIndex = 1, req = dr_remainder\<rparr>],
             [''C'', ''B''],
             [\<lparr>keyIndex = 3, req = dr_timedout\<rparr>, \<lparr>keyIndex = 2, req = dr_timedout\<rparr>])"
  by (simp add: reqs_mixed_def dr_remainder_def dr_timedout_def addressOf_def L0_def)

lemma balances_mixed:
  "api_GetBalances (setts acc0) ([''A''] @ [''C'', ''B'']) 100 ''M'' = Inr [40, 0, 70]"
  by (simp add: acc0_def S0_def)

section \<open>The panic on a request without timeout and expected amount\<close>

lemma defaultInputSelection_panics:
  assumes "store_GetDepositRequests (setts acc) w = Inr reqs" and "list_ex unfunded reqs"
    and "api_GetLatestSolidSubtangleMilestone (setts acc) = Inr h"
    and "clock_Now (setts acc) = Inr now" and "seedProv_Seed (setts acc) = Inr seed"
  shows "defaultInputSelection L acc w tv bc = Panic remainderPanic"
proof -
  from assms(2) have ne: "length reqs \<noteq> 0" by auto
  have "partitionLoop L seed now reqs ([], [], [], []) = Panic remainderPanic"
    using assms(2) by (rule partitionLoop_panics)
  then show ?thesis
    using assms ne by (simp add: defaultInputSelection_def)
qed

text \<open>
  C10, as the claim states it, fails when a lookup before the scan fails: the store yields
  two requests without timeout and expected amount, the clock fails, and the selection
  returns the clock's error instead of panicking.
\<close>

theorem selection_error_before_panic_counterexample:
  "store_GetDepositRequests (setts acc_clock_down) w_unfunded = Inr reqs_unfunded \<and>
   list_ex unfunded reqs_unfunded \<and>
   defaultInputSelection L0 acc_clock_down w_unfunded 0 True =
     Return (0, [], [],
       Some (Wrap (Collaborator ''clock down'') ''unable to get time for doing input selection''))"
  by (simp add: defaultInputSelection_def store_GetDepositRequests_def acc_clock_down_def acc0_def
      S0_def w_unfunded_def w0_def reqs_unfunded_def unfunded_def r_none_def)

text \<open>
  C10, amended. Whenever the store yields a deposit request whose timeout and expected
  amount are both nil, and the lookups of the milestone, the clock and the seed that
  precede the scan succeed, input selection panics instead of returning an error, in probe
  mode and in transfer mode; so do its callers \<^verbatim>\<open>availableBalance\<close>, \<^verbatim>\<open>AvailableBalance\<close> on
  a running account, and \<^verbatim>\<open>send\<close> of a positive value. The scan of the requests panics
  if and only if such a request is among them: the branch is unreachable exactly when
  every stored request without a timeout carries an expected amount.
\<close>

theorem selection_panics_on_unfunded_remainder:
  "(store_GetDepositRequests (setts acc) w = Inr reqs \<and> list_ex unfunded reqs \<and>
    api_GetLatestSolidSubtangleMilestone (setts acc) = Inr h \<and>
    clock_Now (setts acc) = Inr now \<and> seedProv_Seed (setts acc) = Inr seed \<longrightarrow>
      defaultInputSelection L acc w tv bc = Panic remainderPanic \<and>
      availableBalance (defaultInputSelection L) acc w = Panic remainderPanic \<and>
      (running acc \<longrightarrow>
         fst (AvailableBalance (defaultInputSelection L) acc w) = Panic remainderPanic) \<and>
      (0 < Recipients_Sum targets \<longrightarrow>
         fst (send L (defaultInputSelection L) acc w targets) = Panic remainderPanic)) \<and>
   ((\<exists>m. partitionLoop L seed' now' reqs' st = Panic m) \<longleftrightarrow> list_ex unfunded reqs')"
proof -
  have "defaultInputSelection L acc w' tv' bc' = Panic remainderPanic"
    if "store_GetDepositRequests (setts acc) w' = Inr reqs" "list_ex unfunded reqs"
      "api_GetLatestSolidSubtangleMilestone (setts acc) = Inr h"
      "clock_Now (setts acc) = Inr now" "seedProv_Seed (setts acc) = Inr seed"
    for w' tv' bc'
    using that by (rule defaultInputSelection_panics)
  moreover have "store_GetDepositRequests (setts acc) (log e w) = store_GetDepositRequests (setts acc) w"
    for e
    by (simp add: store_GetDepositRequests_def log_def split: option.splits)
  ultimately show ?thesis
    using partitionLoop_panic_iff [of L seed' now' reqs' st]
    by (simp add: availableBalance_def AvailableBalance_def withRLock_def send_def)
qed

theorem selection_panics_on_unfunded_remainder_witness:
  "store_GetDepositRequests (setts acc0) w_unfunded = Inr reqs_unfunded \<and>
   list_ex unfunded reqs_unfunded \<and>
   defaultInputSelection L0 acc0 w_unfunded 0 True = Panic remainderPanic \<and>
   defaultInputSelection L0 acc0 w_unfunded 100 False = Panic remainderPanic \<and>
   fst (AvailableBalance (defaultInputSelection L0) acc0 w_unfunded) = Panic remainderPanic"
proof -
  have g: "store_GetDepositRequests (setts acc0) w_unfunded = Inr reqs_unfunded"
    by (simp add: store_GetDepositRequests_def acc0_def S0_def w_unfunded_def w0_def)
  have u: "list_ex unfunded reqs_unfunded"
    by (simp add: reqs_unfunded_def unfunded_def r_none_def)
  have c: "api_GetLatestSolidSubtangleMilestone (setts acc0) = Inr ''M''"
    "clock_Now (setts acc0) = Inr 0" "seedProv_Seed (setts acc0) = Inr ''SEED''" "running acc0"
    by (simp_all add: acc0_def S0_def)
  show ?thesis
    using selection_panics_on_unfunded_remainder
        [of acc0 w_unfunded reqs_unfunded "''M''" 0 "''SEED''" L0 0 True]
      selection_panics_on_unfunded_remainder
        [of acc0 w_unfunded reqs_unfunded "''M''" 0 "''SEED''" L0 100 False]
      g u c
    by simp
qed

section \<open>Probe mode\<close>

lemma defaultInputSelection_probe_frame:
  "defaultInputSelection L acc w tv True = Return (sm, ins, rem, err) \<Longrightarrow> ins = [] \<and> rem = []"
  by (auto simp: defaultInputSelection_def
      split: sum.splits if_splits outcome.splits prod.splits)

lemma defaultInputSelection_probe_sum:
  assumes "store_GetDepositRequests (setts acc) w = Inr reqs"
    and "api_GetLatestSolidSubtangleMilestone (setts acc) = Inr h"
    and "clock_Now (setts acc) = Inr now" and "seedProv_Seed (setts acc) = Inr seed"
    and part: "partitionLoop L seed now reqs ([], [], [], []) = Return (pa, ps, sa, ss)"
    and "api_GetBalances (setts acc) (pa @ sa) 100 h = Inr balances"
    and len: "length ps + length ss \<le> length balances"
    and np: "\<forall>a \<in> set sa. \<forall>m. hasIncomingConsistentValueTransfer acc a \<noteq> Panic m"
  shows "defaultInputSelection L acc w tv True =
     Return (primarySum ps balances + sum_list (take (length ss) (drop (length ps) balances)),
       [], [], None)"
proof (cases "length reqs = 0")
  case True
  with part have "ps = []" "ss = []" by simp_all
  with True assms(1) show ?thesis
    by (simp add: defaultInputSelection_def primarySum_def)
next
  case False
  from partitionLoop_lengths [OF part] have l: "length pa = length ps" "length sa = length ss"
    by simp_all
  have p: "primaryLoop True tv balances pa 0 ps (0, [], []) =
      Return (0 + primarySum ps (drop 0 balances), [], [])"
    by (rule primaryLoop_probe_sum) (use len l in simp_all)
  have s: "secondaryLoop acc True tv balances (length ps) sa 0 ss (primarySum ps balances, [], []) =
      Return (primarySum ps balances +
        sum_list (take (length ss) (drop (length ps + 0) balances)), [], [])"
    by (rule secondaryLoop_probe_sum) (use len l np in simp_all)
  show ?thesis
    using False assms(1-4) part assms(6) p s
    by (simp add: defaultInputSelection_def)
qed

text \<open>
  C5. For every account, store and target value, selection in probe mode returns no
  inputs and no indices for removal, whatever else it returns; its two loops leave the
  inputs and the indices for removal as they found them, so no key index is ever marked;
  \<^verbatim>\<open>AvailableBalance\<close> with the default strategy leaves the account and the store as they
  were and adds only the read lock and its release to the trace. When the collaborators
  answer, with a balance for every selected address and no panic of the consistency
  check, it returns the prospective sum alone: the balances of all primary addresses
  whose expected amount is reached plus the balances of all secondary addresses, with no
  early termination.
\<close>

theorem probe_mode_selection:
  "(\<forall>sm ins rem err.
      defaultInputSelection L acc w tv True = Return (sm, ins, rem, err) \<longrightarrow>
        ins = [] \<and> rem = []) \<and>
   (\<forall>balances pa i ps st sm' ins' rem'.
      primaryLoop True tv balances pa i ps st = Return (sm', ins', rem') \<longrightarrow>
        ins' = fst (snd st) \<and> rem' = snd (snd st)) \<and>
   (\<forall>balances start sa i ss st sm' ins' rem'.
      secondaryLoop acc True tv balances start sa i ss st = Return (sm', ins', rem') \<longrightarrow>
        ins' = fst (snd st) \<and> rem' = snd (snd st)) \<and>
   (\<forall>r acc' w'.
      AvailableBalance (defaultInputSelection L) acc w = (r, acc', w') \<longrightarrow>
        acc' = acc \<and> store w' = store w \<and> trace w' = trace w @ [RLock, RUnlock]) \<and>
   (\<forall>reqs h now seed pa ps sa ss balances.
      store_GetDepositRequests (setts acc) w = Inr reqs \<and>
      api_GetLatestSolidSubtangleMilestone (setts acc) = Inr h \<and>
      clock_Now (setts acc) = Inr now \<and> seedProv_Seed (setts acc) = Inr seed \<and>
      partitionLoop L seed now reqs ([], [], [], []) = Return (pa, ps, sa, ss) \<and>
      api_GetBalances (setts acc) (pa @ sa) 100 h = Inr balances \<and>
      length ps + length ss \<le> length balances \<and>
      (\<forall>a \<in> set sa. \<forall>m. hasIncomingConsistentValueTransfer acc a \<noteq> Panic m) \<longrightarrow>
      defaultInputSelection L acc w tv True =
        Return (primarySum ps balances + sum_list (take (length ss) (drop (length ps) balances)),
          [], [], None))"
proof -
  have a: "\<forall>sm ins rem err.
      defaultInputSelection L acc w tv True = Return (sm, ins, rem, err) \<longrightarrow>
        ins = [] \<and> rem = []"
    using defaultInputSelection_probe_frame by blast
  have b: "\<forall>balances pa i ps st sm' ins' rem'.
      primaryLoop True tv balances pa i ps st = Return (sm', ins', rem') \<longrightarrow>
        ins' = fst (snd st) \<and> rem' = snd (snd st)"
    using primaryLoop_probe_frame by auto
  have c: "\<forall>balances start sa i ss st sm' ins' rem'.
      secondaryLoop acc True tv balances start sa i ss st = Return (sm', ins', rem') \<longrightarrow>
        ins' = fst (snd st) \<and> rem' = snd (snd st)"
    using secondaryLoop_probe_frame by auto
  have d: "\<forall>r acc' w'.
      AvailableBalance (defaultInputSelection L) acc w = (r, acc', w') \<longrightarrow>
        acc' = acc \<and> store w' = store w \<and> trace w' = trace w @ [RLock, RUnlock]"
    by (auto simp: AvailableBalance_def withRLock_def log_def split: if_splits)
  have e: "\<forall>reqs h now seed pa ps sa ss balances.
      store_GetDepositRequests (setts acc) w = Inr reqs \<and>
      api_GetLatestSolidSubtangleMilestone (setts acc) = Inr h \<and>
      clock_Now (setts acc) = Inr now \<and> seedProv_Seed (setts acc) = Inr seed \<and>
      partitionLoop L seed now reqs ([], [], [], []) = Return (pa, ps, sa, ss) \<and>
      api_GetBalances (setts acc) (pa @ sa) 100 h = Inr balances \<and>
      length ps + length ss \<le> length balances \<and>
      (\<forall>a \<in> set sa. \<forall>m. hasIncomingConsistentValueTransfer acc a \<noteq> Panic m) \<longrightarrow>
      defaultInputSelection L acc w tv True =
        Return (primarySum ps balances + sum_list (take (length ss) (drop (length ps) balances)),
          [], [], None)"
    using defaultInputSelection_probe_sum by blast
  from a b c d e show ?thesis by blast
qed

theorem probe_mode_selection_witness:
  "store_GetDepositRequests (setts acc0) w_mixed = Inr reqs_mixed \<and>
   defaultInputSelection L0 acc0 w_mixed 7 True = Return (110, [], [], None) \<and>
   fst (snd (AvailableBalance (defaultInputSelection L0) acc0 w_mixed)) = acc0 \<and>
   store (snd (snd (AvailableBalance (defaultInputSelection L0) acc0 w_mixed))) = store w_mixed \<and>
   trace (snd (snd (AvailableBalance (defaultInputSelection L0) acc0 w_mixed))) =
     trace w_mixed @ [RLock, RUnlock]"
proof -
  note T = probe_mode_selection [of L0 acc0 w_mixed 7]
  have g: "store_GetDepositRequests (setts acc0) w_mixed = Inr reqs_mixed"
    by (simp add: store_GetDepositRequests_def acc0_def S0_def w_mixed_def w0_def)
  from T have "store_GetDepositRequests (setts acc0) w_mixed = Inr reqs_mixed \<and>
      api_GetLatestSolidSubtangleMilestone (setts acc0) = Inr ''M'' \<and>
      clock_Now (setts acc0) = Inr 0 \<and> seedProv_Seed (setts acc0) = Inr ''SEED'' \<and>
      partitionLoop L0 ''SEED'' 0 reqs_mixed ([], [], [], []) =
        Return ([''A''], [\<lparr>keyIndex = 1, req = dr_remainder\<rparr>], [''C'', ''B''],
          [\<lparr>keyIndex = 3, req = dr_timedout\<rparr>, \<lparr>keyIndex = 2, req = dr_timedout\<rparr>]) \<and>
      api_GetBalances (setts acc0) ([''A''] @ [''C'', ''B'']) 100 ''M'' = Inr [40, 0, 70] \<and>
      length [\<lparr>keyIndex = 1, req = dr_remainder\<rparr>] +
        length [\<lparr>keyIndex = 3, req = dr_timedout\<rparr>, \<lparr>keyIndex = 2, req = dr_timedout\<rparr>]
        \<le> length [40, 0, 70 :: uint64] \<and>
      (\<forall>a \<in> set [''C'', ''B'']. \<forall>m. hasIncomingConsistentValueTransfer acc0 a \<noteq> Panic m) \<longrightarrow>
      defaultInputSelection L0 acc0 w_mixed 7 True =
        Return (primarySum [\<lparr>keyIndex = 1, req = dr_remainder\<rparr>] [40, 0, 70] +
          sum_list (take (length [\<lparr>keyIndex = 3, req = dr_timedout\<rparr>,
                                  \<lparr>keyIndex = 2, req = dr_timedout\<rparr>])
                     (drop (length [\<lparr>keyIndex = 1, req = dr_remainder\<rparr>]) [40, 0, 70])),
          [], [], None)"
    by blast
  then have sel: "defaultInputSelection L0 acc0 w_mixed 7 True = Return (110, [], [], None)"
    using g acc0_collaborators partition_mixed balances_mixed acc0_no_bundles
    by (simp add: primarySum_def reached_def dr_remainder_def)
  from T have "\<forall>r acc' w'.
      AvailableBalance (defaultInputSelection L0) acc0 w_mixed = (r, acc', w') \<longrightarrow>
        acc' = acc0 \<and> store w' = store w_mixed \<and> trace w' = trace w_mixed @ [RLock, RUnlock]"
    by blast
  then have av: "fst (snd (AvailableBalance (defaultInputSelection L0) acc0 w_mixed)) = acc0 \<and>
      store (snd (snd (AvailableBalance (defaultInputSelection L0) acc0 w_mixed))) = store w_mixed \<and>
      trace (snd (snd (AvailableBalance (defaultInputSelection L0) acc0 w_mixed))) =
        trace w_mixed @ [RLock, RUnlock]"
    by (metis prod.collapse)
  show ?thesis using g sel av by simp
qed

section \<open>Transfer mode\<close>

lemma partitionLoop_eq:
  "\<not> list_ex unfunded reqs \<Longrightarrow>
   partitionLoop L seed now reqs (pa, ps, sa, ss) =
     Return (pa @ map (\<lambda>kr. addressOf L seed (fst kr) (snd kr)) (filter (isPrimary now) reqs),
             ps @ map selected (filter (isPrimary now) reqs),
             sa @ map (\<lambda>kr. addressOf L seed (fst kr) (snd kr)) (filter (timedOut now) reqs),
             ss @ map selected (filter (timedOut now) reqs))"
proof (induction reqs arbitrary: pa ps sa ss)
  case Nil
  then show ?case by simp
next
  case (Cons kr reqs)
  obtain k r where kr: "kr = (k, r)" by (cases kr)
  from Cons.prems have nu: "\<not> unfunded (k, r)" and rest: "\<not> list_ex unfunded reqs"
    by (simp_all add: kr)
  note ih = Cons.IH [OF rest]
  show ?case
    using nu
    by (auto simp: kr ih unfunded_def isPrimary_def timedOut_def selected_def
        split: option.splits)
qed

lemma partitionLoop_selection:
  "\<not> list_ex unfunded reqs \<Longrightarrow>
   partitionLoop L seed now reqs ([], [], [], []) =
     Return (primaryAddrsOf L seed now reqs, primarySelectionOf now reqs,
             secondaryAddrsOf L seed now reqs, secondarySelectionOf now reqs)"
  by (simp add: partitionLoop_eq primaryAddrsOf_def primarySelectionOf_def secondaryAddrsOf_def
      secondarySelectionOf_def)

lemma selection_lengths:
  "length (primaryAddrsOf L seed now reqs) = length (primarySelectionOf now reqs)"
  "length (secondaryAddrsOf L seed now reqs) = length (secondarySelectionOf now reqs)"
  by (simp_all add: primaryAddrsOf_def primarySelectionOf_def secondaryAddrsOf_def
      secondarySelectionOf_def)

lemma primaryLoop_greedy:
  "i + length ps \<le> length balances \<Longrightarrow> i + length ps \<le> length pa \<Longrightarrow>
   primaryLoop False tv balances pa i ps (sm, ins, rem) =
     Return (sm + balanceSum (greedyPrefix tv sm (candidates ps (drop i pa) (drop i balances))),
             ins @ map toInput (greedyPrefix tv sm (candidates ps (drop i pa) (drop i balances))),
             rem @ map (\<lambda>c. keyIndex (fst c))
                     (greedyPrefix tv sm (candidates ps (drop i pa) (drop i balances))))"
proof (induction ps arbitrary: i sm ins rem)
  case Nil
  then show ?case by (simp add: candidates_def balanceSum_def)
next
  case (Cons s ps)
  from Cons.prems have i: "i < length balances" "i < length pa"
    and next_ok: "Suc i + length ps \<le> length balances" "Suc i + length ps \<le> length pa"
    by simp_all
  have dr: "drop i balances = balances ! i # drop (Suc i) balances"
    "drop i pa = pa ! i # drop (Suc i) pa"
    using i by (simp_all add: Cons_nth_drop_Suc)
  note ih = Cons.IH [OF next_ok]
  let ?b = "balances ! i"
  let ?cs = "candidates ps (drop (Suc i) pa) (drop (Suc i) balances)"
  show ?case
  proof (cases "reached s ?b \<and> ?b \<noteq> 0")
    case False
    then have c: "candidates (s # ps) (drop i pa) (drop i balances) = ?cs"
      by (simp add: candidates_def dr)
    from False show ?thesis
      unfolding c using i
      by (auto simp: index_def ih reached_def split: option.splits)
  next
    case True
    then have c: "candidates (s # ps) (drop i pa) (drop i balances) = (s, pa ! i, ?b) # ?cs"
      by (simp add: candidates_def dr)
    from True have ne: "\<not> ?b \<le> 0" by (simp add: word_le_nat_alt unat_eq_0)
    from True have re: "\<not> (case ExpectedAmount (Request (req s)) of None \<Rightarrow> False | Some ea \<Rightarrow> ?b < ea)"
      by (simp add: reached_def split: option.splits)
    show ?thesis
      unfolding c using i ne re
      by (simp add: index_def ih addAsInput_def markForRemoval_def Let_def balanceSum_def
          toInput_def add.assoc)
  qed
qed

lemma greedyPrefix_is_prefix: "\<exists>rest. cs = greedyPrefix tv sm cs @ rest"
proof (induction cs arbitrary: sm)
  case Nil
  show ?case by simp
next
  case (Cons c cs)
  obtain s a b where c: "c = (s, a, b)" by (cases c)
  from Cons [of "sm + b"] show ?case by (auto simp: c)
qed

lemma greedyPrefix_stops:
  "greedyPrefix tv sm cs = cs \<or> sm + balanceSum (greedyPrefix tv sm cs) > tv"
proof (induction cs arbitrary: sm)
  case Nil
  show ?case by simp
next
  case (Cons c cs)
  obtain s a b where c: "c = (s, a, b)" by (cases c)
  from Cons [of "sm + b"] show ?case by (auto simp: c balanceSum_def add.assoc)
qed

lemma greedyPrefix_minimal:
  "0 < n \<Longrightarrow> n < length (greedyPrefix tv sm cs) \<Longrightarrow>
   \<not> sm + balanceSum (take n (greedyPrefix tv sm cs)) > tv"
proof (induction cs arbitrary: sm n)
  case Nil
  then show ?case by simp
next
  case (Cons c cs)
  obtain s a b where c: "c = (s, a, b)" by (cases c)
  show ?case
  proof (cases "sm + b > tv")
    case True
    with Cons.prems show ?thesis by (simp add: c)
  next
    case False
    obtain m where n: "n = Suc m" using Cons.prems(1) by (cases n) auto
    from Cons.prems False have m: "m < length (greedyPrefix tv (sm + b) cs)" by (simp add: c n)
    show ?thesis
    proof (cases m)
      case 0
      with False show ?thesis by (simp add: c n balanceSum_def)
    next
      case (Suc m')
      then have "0 < m" by simp
      from Cons.IH [OF this m] False show ?thesis
        by (simp add: c n balanceSum_def add.assoc)
    qed
  qed
qed

lemma uint64_add_below:
  fixes a b tv :: uint64
  assumes "unat a + unat b \<le> unat tv"
  shows "unat (a + b) = unat a + unat b" and "\<not> a + b > tv"
proof -
  have "unat tv < 2 ^ LENGTH(64)" by (rule unsigned_less)
  with assms have "unat a + unat b < 2 ^ LENGTH(64)" by linarith
  then show u: "unat (a + b) = unat a + unat b" using unat_add_lem [of a b] by blast
  show "\<not> a + b > tv" using assms u by (simp add: word_less_nat_alt)
qed

lemma primaryLoop_below:
  "i + length ps \<le> length balances \<Longrightarrow> i + length ps \<le> length pa \<Longrightarrow>
   unat sm + primaryTotal ps (drop i balances) \<le> unat tv \<Longrightarrow>
   \<exists>sm' ins' rem'. primaryLoop False tv balances pa i ps (sm, ins, rem) = Return (sm', ins', rem') \<and>
     unat sm' = unat sm + primaryTotal ps (drop i balances)"
proof (induction ps arbitrary: i sm ins rem)
  case Nil
  then show ?case by (simp add: primaryTotal_def)
next
  case (Cons s ps)
  from Cons.prems have i: "i < length balances" "i < length pa"
    and next_ok: "Suc i + length ps \<le> length balances" "Suc i + length ps \<le> length pa"
    by simp_all
  have dr: "drop i balances = balances ! i # drop (Suc i) balances"
    using i by (simp add: Cons_nth_drop_Suc)
  let ?b = "balances ! i"
  show ?case
  proof (cases "reached s ?b")
    case False
    then have t: "primaryTotal (s # ps) (drop i balances) = primaryTotal ps (drop (Suc i) balances)"
      by (simp add: primaryTotal_def dr)
    from Cons.prems(3) have "unat sm + primaryTotal ps (drop (Suc i) balances) \<le> unat tv"
      by (simp add: t)
    from Cons.IH [OF next_ok this, of ins rem] False show ?thesis
      using i by (auto simp: t index_def reached_def split: option.splits)
  next
    case True
    then have t: "primaryTotal (s # ps) (drop i balances) =
        unat ?b + primaryTotal ps (drop (Suc i) balances)"
      by (simp add: primaryTotal_def dr)
    from Cons.prems(3) have le: "unat sm + unat ?b \<le> unat tv" by (simp add: t)
    note ab = uint64_add_below [OF le]
    from Cons.prems(3) have bound: "unat (sm + ?b) + primaryTotal ps (drop (Suc i) balances) \<le> unat tv"
      by (simp add: t ab(1))
    from True have re: "\<not> (case ExpectedAmount (Request (req s)) of None \<Rightarrow> False | Some ea \<Rightarrow> ?b < ea)"
      by (simp add: reached_def split: option.splits)
    define ins1 where "ins1 = (if ?b \<le> 0 then ins else addAsInput False ins
        \<lparr>in_Address = pa ! i, in_KeyIndex = keyIndex s, in_Balance = ?b,
         in_Security = SecurityLevel (req s)\<rparr>)"
    define rem1 where "rem1 = (if ?b \<le> 0 then rem else markForRemoval False rem (keyIndex s))"
    have step: "primaryLoop False tv balances pa i (s # ps) (sm, ins, rem) =
        primaryLoop False tv balances pa (Suc i) ps (sm + ?b, ins1, rem1)"
      using i re ab(2) by (simp add: index_def Let_def ins1_def rem1_def)
    from Cons.IH [OF next_ok bound, of ins1 rem1] show ?thesis
      unfolding step by (simp add: t ab(1) add.assoc)
  qed
qed

lemma secondaryLoop_below:
  "start + i + length ss \<le> length balances \<Longrightarrow> i + length ss \<le> length sa \<Longrightarrow>
   \<forall>a \<in> set (drop i sa). \<forall>m. hasIncomingConsistentValueTransfer acc a \<noteq> Panic m \<Longrightarrow>
   unat sm + secondaryTotal ss (drop (start + i) balances) \<le> unat tv \<Longrightarrow>
   \<exists>sm' ins' rem'. secondaryLoop acc False tv balances start sa i ss (sm, ins, rem) =
       Return (sm', ins', rem') \<and>
     unat sm' = unat sm + secondaryTotal ss (drop (start + i) balances)"
proof (induction ss arbitrary: i sm ins rem)
  case Nil
  then show ?case by (simp add: secondaryTotal_def)
next
  case (Cons s ss)
  from Cons.prems have i: "start + i < length balances" "i < length sa"
    and next_ok: "start + Suc i + length ss \<le> length balances" "Suc i + length ss \<le> length sa"
    by simp_all
  have dr: "drop (start + i) balances = balances ! (start + i) # drop (start + Suc i) balances"
    using i by (simp add: Cons_nth_drop_Suc)
  have dra: "drop i sa = sa ! i # drop (Suc i) sa"
    using i by (simp add: Cons_nth_drop_Suc)
  have np: "\<forall>a \<in> set (drop (Suc i) sa). \<forall>m. hasIncomingConsistentValueTransfer acc a \<noteq> Panic m"
    and np0: "\<forall>m. hasIncomingConsistentValueTransfer acc (sa ! i) \<noteq> Panic m"
    using Cons.prems(3) unfolding dra by simp_all
  let ?b = "balances ! (start + i)"
  have t: "secondaryTotal (s # ss) (drop (start + i) balances) =
      unat ?b + secondaryTotal ss (drop (start + Suc i) balances)"
    by (simp add: secondaryTotal_def dr)
  from Cons.prems(4) have le: "unat sm + unat ?b \<le> unat tv" by (simp add: t)
  note ab = uint64_add_below [OF le]
  from Cons.prems(4) have bound:
    "unat (sm + ?b) + secondaryTotal ss (drop (start + Suc i) balances) \<le> unat tv"
    by (simp add: t ab(1))
  show ?case
  proof (cases "?b = 0")
    case True
    obtain has err where h: "hasIncomingConsistentValueTransfer acc (sa ! i) = Return (has, err)"
      using np0 by (cases "hasIncomingConsistentValueTransfer acc (sa ! i)") auto
    from bound True have bound0:
      "unat sm + secondaryTotal ss (drop (start + Suc i) balances) \<le> unat tv" by simp
    define rem1 where
      "rem1 = (if has \<or> err \<noteq> None then rem else markForRemoval False rem (keyIndex s))"
    have step: "secondaryLoop acc False tv balances start sa i (s # ss) (sm, ins, rem) =
        secondaryLoop acc False tv balances start sa (Suc i) ss (sm, ins, rem1)"
      using i True h by (simp add: index_def rem1_def)
    from Cons.IH [OF next_ok np bound0, of ins rem1] show ?thesis
      unfolding step using True by (simp add: t)
  next
    case False
    have step: "secondaryLoop acc False tv balances start sa i (s # ss) (sm, ins, rem) =
        secondaryLoop acc False tv balances start sa (Suc i) ss
          (sm + ?b,
           addAsInput False ins
             \<lparr>in_Address = sa ! i, in_KeyIndex = keyIndex s, in_Balance = ?b,
              in_Security = SecurityLevel (req s)\<rparr>,
           markForRemoval False rem (keyIndex s))"
      using i False ab(2) by (simp add: index_def Let_def)
    from Cons.IH [OF next_ok np bound] show ?thesis
      unfolding step by (simp add: t ab(1) add.assoc)
  qed
qed

lemma secondaryLoop_marks:
  "secondaryLoop acc bc tv balances start sa i ss (sm, ins, rem) = Return (sm', ins', rem') \<Longrightarrow>
   set rem' \<subseteq> set rem \<union> keyIndex ` set ss \<and>
   in_KeyIndex ` set ins' \<subseteq> in_KeyIndex ` set ins \<union> keyIndex ` set ss"
proof (induction ss arbitrary: i sm ins rem)
  case Nil
  then show ?case by simp
next
  case (Cons s ss)
  obtain addr where a: "index sa i = Return addr"
    using Cons.prems by (auto split: outcome.splits)
  obtain b where b: "index balances (start + i) = Return b"
    using Cons.prems a by (auto split: outcome.splits)
  define K where "K = keyIndex ` set ss"
  define A where "A = in_KeyIndex ` set ins"
  define A' where "A' = in_KeyIndex ` set ins'"
  have tgt: "keyIndex ` set (s # ss) = insert (keyIndex s) K" by (simp add: K_def)
  have goal: "set rem' \<subseteq> set rem \<union> insert (keyIndex s) K \<and> A' \<subseteq> A \<union> insert (keyIndex s) K"
  proof (cases "b = 0")
    case True
    obtain has err where h: "hasIncomingConsistentValueTransfer acc addr = Return (has, err)"
      using Cons.prems a b True by (auto split: outcome.splits)
    define rem1 where
      "rem1 = (if has \<or> err \<noteq> None then rem else markForRemoval bc rem (keyIndex s))"
    have "secondaryLoop acc bc tv balances start sa (Suc i) ss (sm, ins, rem1) =
        Return (sm', ins', rem')"
      using Cons.prems a b True h by (auto simp: rem1_def)
    from Cons.IH [OF this] have ih: "set rem' \<subseteq> set rem1 \<union> K" "A' \<subseteq> A \<union> K"
      by (simp_all add: K_def A_def A'_def)
    have "set rem1 \<subseteq> set rem \<union> {keyIndex s}"
      by (auto simp: rem1_def markForRemoval_def)
    with ih show ?thesis by blast
  next
    case False
    define ins1 where "ins1 = addAsInput bc ins
        \<lparr>in_Address = addr, in_KeyIndex = keyIndex s, in_Balance = b,
         in_Security = SecurityLevel (req s)\<rparr>"
    define rem1 where "rem1 = markForRemoval bc rem (keyIndex s)"
    define A1 where "A1 = in_KeyIndex ` set ins1"
    have st: "set rem1 \<subseteq> set rem \<union> {keyIndex s}" "A1 \<subseteq> A \<union> {keyIndex s}"
      by (auto simp: rem1_def ins1_def A1_def A_def markForRemoval_def addAsInput_def)
    show ?thesis
    proof (cases "sm + b > tv \<and> \<not> bc")
      case True
      with Cons.prems a b False have "(sm', ins', rem') = (sm + b, ins1, rem1)"
        by (simp add: Let_def ins1_def rem1_def)
      then have "rem' = rem1" "A' = A1" by (simp_all add: A'_def A1_def)
      with st show ?thesis by blast
    next
      case nobreak: False
      with Cons.prems a b False
      have "secondaryLoop acc bc tv balances start sa (Suc i) ss (sm + b, ins1, rem1) =
          Return (sm', ins', rem')"
        by (simp add: Let_def ins1_def rem1_def)
      from Cons.IH [OF this] have ih: "set rem' \<subseteq> set rem1 \<union> K" "A' \<subseteq> A1 \<union> K"
        by (simp_all add: K_def A1_def A'_def)
      with st show ?thesis by blast
    qed
  qed
  then show ?case unfolding tgt by (simp add: A_def A'_def)
qed

lemma defaultInputSelection_primary:
  assumes g: "store_GetDepositRequests (setts acc) w = Inr reqs" and ne: "reqs \<noteq> []"
    and nu: "\<not> list_ex unfunded reqs"
    and m: "api_GetLatestSolidSubtangleMilestone (setts acc) = Inr h"
    and c: "clock_Now (setts acc) = Inr now" and sd: "seedProv_Seed (setts acc) = Inr seed"
    and b: "api_GetBalances (setts acc)
              (primaryAddrsOf L seed now reqs @ secondaryAddrsOf L seed now reqs) 100 h = Inr balances"
    and len: "length (primarySelectionOf now reqs) \<le> length balances"
    and P: "P = greedyPrefix tv 0
              (candidates (primarySelectionOf now reqs) (primaryAddrsOf L seed now reqs) balances)"
    and enough: "tv \<le> balanceSum P"
  shows "defaultInputSelection L acc w tv False =
     Return (balanceSum P, map toInput P, map (\<lambda>c. keyIndex (fst c)) P, None)"
proof -
  have p: "primaryLoop False tv balances (primaryAddrsOf L seed now reqs) 0
      (primarySelectionOf now reqs) (0, [], []) =
      Return (balanceSum P, map toInput P, map (\<lambda>c. keyIndex (fst c)) P)"
    using primaryLoop_greedy [of 0 "primarySelectionOf now reqs" balances
        "primaryAddrsOf L seed now reqs" tv 0 "[]" "[]"] len
    by (simp add: selection_lengths P)
  from enough have nl: "\<not> balanceSum P < tv" by simp
  show ?thesis
    using g ne m c sd b p nl
    by (simp add: defaultInputSelection_def partitionLoop_selection [OF nu])
qed

lemma defaultInputSelection_insufficient:
  assumes g: "store_GetDepositRequests (setts acc) w = Inr reqs"
    and nu: "\<not> list_ex unfunded reqs"
    and m: "api_GetLatestSolidSubtangleMilestone (setts acc) = Inr h"
    and c: "clock_Now (setts acc) = Inr now" and sd: "seedProv_Seed (setts acc) = Inr seed"
    and b: "api_GetBalances (setts acc)
              (primaryAddrsOf L seed now reqs @ secondaryAddrsOf L seed now reqs) 100 h = Inr balances"
    and len: "length (primarySelectionOf now reqs) + length (secondarySelectionOf now reqs)
              \<le> length balances"
    and np: "\<forall>a \<in> set (secondaryAddrsOf L seed now reqs).
               \<forall>m. hasIncomingConsistentValueTransfer acc a \<noteq> Panic m"
    and below: "primaryTotal (primarySelectionOf now reqs) balances +
                secondaryTotal (secondarySelectionOf now reqs)
                  (drop (length (primarySelectionOf now reqs)) balances) < unat tv"
  shows "defaultInputSelection L acc w tv False = Return (0, [], [], Some ErrInsufficientBalance)"
proof (cases "reqs = []")
  case True
  with g show ?thesis by (simp add: defaultInputSelection_def)
next
  case False
  let ?ps = "primarySelectionOf now reqs" and ?pa = "primaryAddrsOf L seed now reqs"
  let ?ss = "secondarySelectionOf now reqs" and ?sa = "secondaryAddrsOf L seed now reqs"
  have "unat (0 :: uint64) + primaryTotal ?ps (drop 0 balances) \<le> unat tv"
    using below by simp
  from primaryLoop_below [OF _ _ this, of ?pa "[]" "[]"] len
  obtain sm1 ins1 rem1 where
    p: "primaryLoop False tv balances ?pa 0 ?ps (0, [], []) = Return (sm1, ins1, rem1)"
    and u1: "unat sm1 = primaryTotal ?ps balances"
    by (auto simp: selection_lengths)
  have "unat sm1 + secondaryTotal ?ss (drop (length ?ps + 0) balances) \<le> unat tv"
    using below u1 by simp
  from secondaryLoop_below [OF _ _ _ this, of ?sa acc ins1 rem1] len np
  obtain sm2 ins2 rem2 where
    s: "secondaryLoop acc False tv balances (length ?ps) ?sa 0 ?ss (sm1, ins1, rem1) =
          Return (sm2, ins2, rem2)"
    and u2: "unat sm2 = unat sm1 + secondaryTotal ?ss (drop (length ?ps) balances)"
    by (auto simp: selection_lengths)
  from u1 below have lt1: "sm1 < tv" by (simp add: word_less_nat_alt)
  from u1 u2 below have lt2: "sm2 < tv" by (simp add: word_less_nat_alt)
  show ?thesis
    using g False m c sd b p s lt1 lt2
    by (simp add: defaultInputSelection_def partitionLoop_selection [OF nu])
qed

lemma defaultInputSelection_error_discards:
  "defaultInputSelection L acc w tv False = Return (sm, ins, rem, Some e) \<Longrightarrow>
   sm = 0 \<and> ins = [] \<and> rem = []"
  by (auto simp: defaultInputSelection_def
      split: sum.splits if_splits outcome.splits prod.splits)

lemma Send_selection_failed:
  assumes "running acc" and "recipients \<noteq> []"
    and "\<not> list_ex (\<lambda>target. \<not> IsTrytesOfExactLength L (tr_Address target)
                         (HashTrytesSize L + AddressChecksumTrytesSize L)) recipients"
    and "0 < Recipients_Sum recipients"
    and "strategy acc (log Lock w) (Recipients_Sum recipients) False = Return (sm, ins, rem, Some e)"
  shows "Send L strategy acc w recipients =
     (Return (Inl (Wrap e ''failed to perform input selection in send op.'')), acc,
      log Unlock (log Lock w))"
  using assms by (simp add: Send_def withLock_def send_def)

lemma selection_AB:
  "primarySelectionOf 0 reqs_AB = [selected (1, dr_funded 40), selected (2, dr_funded 70)]"
  "primaryAddrsOf L0 ''SEED'' 0 reqs_AB = [''A'', ''B'']"
  "secondaryAddrsOf L0 ''SEED'' 0 reqs_AB = []"
  "\<not> list_ex unfunded reqs_AB"
  by (simp_all add: primarySelectionOf_def primaryAddrsOf_def secondaryAddrsOf_def reqs_AB_def
      isPrimary_def timedOut_def dr_funded_def addressOf_def L0_def unfunded_def)

lemma candidates_AB:
  "candidates [selected (1, dr_funded 40), selected (2, dr_funded 70)] [''A'', ''B''] [40, 70] =
     [(selected (1, dr_funded 40), ''A'', 40), (selected (2, dr_funded 70), ''B'', 70)]"
  by (simp add: candidates_def reached_def selected_def dr_funded_def)

lemma selection_BA:
  "primarySelectionOf 0 (rev reqs_AB) = [selected (2, dr_funded 70), selected (1, dr_funded 40)]"
  "primaryAddrsOf L0 ''SEED'' 0 (rev reqs_AB) = [''B'', ''A'']"
  "secondaryAddrsOf L0 ''SEED'' 0 (rev reqs_AB) = []"
  "\<not> list_ex unfunded (rev reqs_AB)"
  by (simp_all add: primarySelectionOf_def primaryAddrsOf_def secondaryAddrsOf_def reqs_AB_def
      isPrimary_def timedOut_def dr_funded_def addressOf_def L0_def unfunded_def)

lemma selection_BA_eval:
  "defaultInputSelection L0 acc0 w_BA 50 False = Return (70, [input_B], [2], None)"
proof -
  have g: "store_GetDepositRequests (setts acc0) w_BA = Inr (rev reqs_AB)"
    by (simp add: store_GetDepositRequests_def acc0_def S0_def w_BA_def w0_def)
  have ne: "rev reqs_AB \<noteq> []" by (simp add: reqs_AB_def)
  have b: "api_GetBalances (setts acc0)
      (primaryAddrsOf L0 ''SEED'' 0 (rev reqs_AB) @ secondaryAddrsOf L0 ''SEED'' 0 (rev reqs_AB))
      100 ''M'' = Inr [70, 40]"
    by (simp add: selection_BA acc0_def S0_def)
  have len: "length (primarySelectionOf 0 (rev reqs_AB)) \<le> length [70, 40 :: uint64]"
    by (simp add: selection_BA)
  define P where "P = greedyPrefix 50 0 (candidates (primarySelectionOf 0 (rev reqs_AB))
      (primaryAddrsOf L0 ''SEED'' 0 (rev reqs_AB)) [70, 40])"
  have Pv: "P = [(selected (2, dr_funded 70), ''B'', 70)]"
    by (simp add: P_def selection_BA candidates_def reached_def selected_def dr_funded_def)
  have enough: "50 \<le> balanceSum P" by (simp add: Pv balanceSum_def)
  from defaultInputSelection_primary
    [OF g ne selection_BA(4) acc0_collaborators(1,2,3) b len P_def enough]
  show ?thesis
    by (simp add: Pv balanceSum_def toInput_def selected_def dr_funded_def input_B_def)
qed

lemma selection_unfunded_eval:
  "defaultInputSelection L0 acc0 w_unfunded 100 False = Panic remainderPanic"
proof -
  have g: "store_GetDepositRequests (setts acc0) w_unfunded = Inr reqs_unfunded"
    by (simp add: store_GetDepositRequests_def acc0_def S0_def w_unfunded_def w0_def)
  have u: "list_ex unfunded reqs_unfunded"
    by (simp add: reqs_unfunded_def unfunded_def r_none_def)
  show ?thesis
    using g u acc0_collaborators(1,2,3) by (rule defaultInputSelection_panics)
qed

text \<open>
  C1, as the claim states it, fails on its own example: with the deposit requests of \<open>A\<close>
  (balance 40) and \<open>B\<close> (balance 70), both without timeout and without expected amount,
  and the target 100, selection panics. It also fails on the order: the requests are the
  entries of a Go map, which \<^verbatim>\<open>range\<close> yields in no fixed order; when \<open>B\<close> (key index 2)
  is yielded before \<open>A\<close> (key index 1), both funded as expected, and the target is 50,
  selection returns the input \<open>B\<close> alone, which is no prefix in allocation order.
\<close>

theorem spec_example_panics_counterexample:
  "DepositRequests (store w_unfunded) =
     [(1, \<lparr>SecurityLevel = 2, Request = r_none\<rparr>), (2, \<lparr>SecurityLevel = 2, Request = r_none\<rparr>)] \<and>
   TimeoutAt r_none = None \<and> ExpectedAmount r_none = None \<and>
   defaultInputSelection L0 acc0 w_unfunded 100 False = Panic remainderPanic \<and>
   DepositRequests (store w_BA) = [(2, dr_funded 70), (1, dr_funded 40)] \<and>
   defaultInputSelection L0 acc0 w_BA 50 False = Return (70, [input_B], [2], None)"
  by (simp add: selection_unfunded_eval selection_BA_eval)
     (simp add: w_unfunded_def w_BA_def w0_def reqs_unfunded_def reqs_AB_def r_none_def)

text \<open>
  C1, amended. In transfer mode, when the store and the collaborators answer and no
  request lacks both timeout and expected amount, input selection scans the primary
  addresses in the order in which the store yields the requests; the candidates \<open>C\<close> are
  those whose balance is not below the declared expected amount and is not zero. It
  takes the candidates up to and including the first at which the running sum exceeds the
  target, or all of them: the prefix \<open>P\<close>. When the sum of \<open>P\<close> is at least the target,
  selection returns that sum, the inputs of exactly \<open>P\<close> and the key indices of exactly
  \<open>P\<close> for removal, and no error. \<open>P\<close> is a prefix of \<open>C\<close>; it is all of \<open>C\<close> or its sum
  exceeds the target; and no shorter non-empty prefix of it exceeds the target.
\<close>

theorem transfer_mode_primary_selection:
  assumes "store_GetDepositRequests (setts acc) w = Inr reqs" and "reqs \<noteq> []"
    and "\<not> list_ex unfunded reqs"
    and "api_GetLatestSolidSubtangleMilestone (setts acc) = Inr h"
    and "clock_Now (setts acc) = Inr now" and "seedProv_Seed (setts acc) = Inr seed"
    and "api_GetBalances (setts acc)
           (primaryAddrsOf L seed now reqs @ secondaryAddrsOf L seed now reqs) 100 h = Inr balances"
    and "length (primarySelectionOf now reqs) \<le> length balances"
    and "C = candidates (primarySelectionOf now reqs) (primaryAddrsOf L seed now reqs) balances"
    and "P = greedyPrefix tv 0 C"
    and "tv \<le> balanceSum P"
  shows "defaultInputSelection L acc w tv False =
           Return (balanceSum P, map toInput P, map (\<lambda>c. keyIndex (fst c)) P, None) \<and>
         (\<exists>rest. C = P @ rest) \<and>
         (P = C \<or> balanceSum P > tv) \<and>
         (\<forall>n. 0 < n \<and> n < length P \<longrightarrow> \<not> balanceSum (take n P) > tv)"
proof -
  have P: "P = greedyPrefix tv 0
      (candidates (primarySelectionOf now reqs) (primaryAddrsOf L seed now reqs) balances)"
    using assms(9,10) by simp
  have a: "defaultInputSelection L acc w tv False =
           Return (balanceSum P, map toInput P, map (\<lambda>c. keyIndex (fst c)) P, None)"
    using assms(1-8) P assms(11) by (rule defaultInputSelection_primary)
  have b: "\<exists>rest. C = P @ rest"
    unfolding assms(10) by (rule greedyPrefix_is_prefix)
  have c: "P = C \<or> balanceSum P > tv"
    using greedyPrefix_stops [of tv 0 C] by (simp add: assms(10))
  have d: "\<forall>n. 0 < n \<and> n < length P \<longrightarrow> \<not> balanceSum (take n P) > tv"
    using greedyPrefix_minimal [of _ tv 0 C] by (simp add: assms(10))
  from a b c d show ?thesis by blast
qed

theorem transfer_mode_primary_selection_witness:
  "store_GetDepositRequests (setts acc0) w_AB = Inr reqs_AB \<and>
   defaultInputSelection L0 acc0 w_AB 100 False = Return (110, [input_A, input_B], [1, 2], None)"
proof -
  have g: "store_GetDepositRequests (setts acc0) w_AB = Inr reqs_AB"
    by (simp add: store_GetDepositRequests_def acc0_def S0_def w_AB_def w0_def)
  have ne: "reqs_AB \<noteq> []" by (simp add: reqs_AB_def)
  have b: "api_GetBalances (setts acc0)
      (primaryAddrsOf L0 ''SEED'' 0 reqs_AB @ secondaryAddrsOf L0 ''SEED'' 0 reqs_AB) 100 ''M'' =
      Inr [40, 70]"
    by (simp add: selection_AB acc0_def S0_def)
  have len: "length (primarySelectionOf 0 reqs_AB) \<le> length [40, 70 :: uint64]"
    by (simp add: selection_AB)
  define C where "C = candidates (primarySelectionOf 0 reqs_AB)
      (primaryAddrsOf L0 ''SEED'' 0 reqs_AB) [40, 70]"
  define P where "P = greedyPrefix 100 0 C"
  have Pv: "P = [(selected (1, dr_funded 40), ''A'', 40), (selected (2, dr_funded 70), ''B'', 70)]"
    by (simp add: P_def C_def selection_AB candidates_AB)
  have enough: "100 \<le> balanceSum P" by (simp add: Pv balanceSum_def)
  from transfer_mode_primary_selection
    [OF g ne selection_AB(4) acc0_collaborators(1,2,3) b len C_def P_def enough]
  have "defaultInputSelection L0 acc0 w_AB 100 False =
      Return (balanceSum P, map toInput P, map (\<lambda>c. keyIndex (fst c)) P, None)"
    by blast
  then have "defaultInputSelection L0 acc0 w_AB 100 False =
      Return (110, [input_A, input_B], [1, 2], None)"
    by (simp add: Pv balanceSum_def toInput_def selected_def dr_funded_def input_A_def input_B_def)
  with g show ?thesis by simp
qed

section \<open>A transfer that cannot be funded\<close>

lemma defaultInputSelection_log:
  "defaultInputSelection L acc (log e w) tv bc = defaultInputSelection L acc w tv bc"
  by (simp add: defaultInputSelection_def store_GetDepositRequests_def log_def
      split: option.splits)

lemma selection_timedout:
  "primarySelectionOf 0 [(3, dr_timedout)] = []"
  "primaryAddrsOf L0 ''SEED'' 0 [(3, dr_timedout)] = []"
  "secondarySelectionOf 0 [(3, dr_timedout)] = [selected (3, dr_timedout)]"
  "secondaryAddrsOf L0 ''SEED'' 0 [(3, dr_timedout)] = [''C'']"
  "\<not> list_ex unfunded [(3, dr_timedout)]"
  by (simp_all add: primarySelectionOf_def primaryAddrsOf_def secondaryAddrsOf_def
      secondarySelectionOf_def isPrimary_def timedOut_def dr_timedout_def addressOf_def L0_def
      unfunded_def)

lemma rs5_valid:
  "rs5 \<noteq> []" "Recipients_Sum rs5 = 5"
  "\<not> list_ex (\<lambda>target. \<not> IsTrytesOfExactLength L0 (tr_Address target)
                (HashTrytesSize L0 + AddressChecksumTrytesSize L0)) rs5"
  by (simp_all add: rs5_def Recipients_Sum_def L0_def)

lemma marked_timedout_eval:
  "secondaryLoop acc0 False 5 [0] 0 [''C''] 0 [selected (3, dr_timedout)] (0, [], []) =
     Return (0, [], [3])"
  by (simp add: index_def acc0_no_bundles markForRemoval_def selected_def)

lemma selection_timedout_eval:
  "defaultInputSelection L0 acc0 w_timedout 5 False = Return (0, [], [], Some ErrInsufficientBalance)"
proof -
  have g: "store_GetDepositRequests (setts acc0) w_timedout = Inr [(3, dr_timedout)]"
    by (simp add: store_GetDepositRequests_def acc0_def S0_def w_timedout_def w0_def)
  have b: "api_GetBalances (setts acc0)
      (primaryAddrsOf L0 ''SEED'' 0 [(3, dr_timedout)] @
       secondaryAddrsOf L0 ''SEED'' 0 [(3, dr_timedout)]) 100 ''M'' = Inr [0]"
    by (simp add: selection_timedout acc0_def S0_def)
  show ?thesis
    by (rule defaultInputSelection_insufficient
          [OF g selection_timedout(5) acc0_collaborators(1,2,3) b])
       (simp_all add: selection_timedout acc0_no_bundles primaryTotal_def secondaryTotal_def)
qed

lemma Send_timedout_eval:
  "Send L0 (defaultInputSelection L0) acc0 w_timedout rs5 =
     (Return (Inl (Wrap ErrInsufficientBalance ''failed to perform input selection in send op.'')),
      acc0, log Unlock (log Lock w_timedout))"
  by (rule Send_selection_failed [OF acc0_collaborators(4) rs5_valid(1) rs5_valid(3)])
     (simp_all add: rs5_valid(2) defaultInputSelection_log selection_timedout_eval)

text \<open>
  C2, as the claim states it, fails in its second half. The store holds one timed-out
  request (key index 3) whose address holds nothing and has no incoming transfer; the
  target is 5. The secondary pass marks key index 3 for removal, but selection returns
  \<^verbatim>\<open>ErrInsufficientBalance\<close> with no indices for removal, \<^verbatim>\<open>Send\<close> returns the wrapped
  error, and the store still holds the request of key index 3.
\<close>

theorem marked_address_not_freed_counterexample:
  "DepositRequests (store w_timedout) = [(3, dr_timedout)] \<and>
   hasIncomingConsistentValueTransfer acc0 ''C'' = Return (False, None) \<and>
   secondaryLoop acc0 False 5 [0] 0 [''C''] 0 [selected (3, dr_timedout)] (0, [], []) =
     Return (0, [], [3]) \<and>
   defaultInputSelection L0 acc0 w_timedout 5 False =
     Return (0, [], [], Some ErrInsufficientBalance) \<and>
   Send L0 (defaultInputSelection L0) acc0 w_timedout rs5 =
     (Return (Inl (Wrap ErrInsufficientBalance ''failed to perform input selection in send op.'')),
      acc0, log Unlock (log Lock w_timedout)) \<and>
   DepositRequests (store (log Unlock (log Lock w_timedout))) = [(3, dr_timedout)]"
  by (intro conjI acc0_no_bundles marked_timedout_eval selection_timedout_eval Send_timedout_eval)
     (simp_all add: w_timedout_def w0_def log_def)

text \<open>
  C2, amended. In transfer mode, whenever input selection returns an error it returns
  the sum 0, no inputs and no indices for removal: the indices marked during the passes
  are dropped. When the store and the collaborators answer and the balances of the primary
  addresses whose expected amount is reached and of the secondary addresses add up to
  less than the target, selection returns \<^verbatim>\<open>ErrInsufficientBalance\<close>. \<^verbatim>\<open>Send\<close>, on a
  running account with valid recipients and a positive value, then returns the error of
  the selection wrapped as "failed to perform input selection in send op.", and leaves
  the account and the store as they were: nothing is freed.
\<close>

theorem insufficient_balance_frees_nothing:
  "(\<forall>sm ins rem e.
      defaultInputSelection L acc w tv False = Return (sm, ins, rem, Some e) \<longrightarrow>
        sm = 0 \<and> ins = [] \<and> rem = []) \<and>
   (\<forall>reqs h now seed balances.
      store_GetDepositRequests (setts acc) w = Inr reqs \<and> \<not> list_ex unfunded reqs \<and>
      api_GetLatestSolidSubtangleMilestone (setts acc) = Inr h \<and>
      clock_Now (setts acc) = Inr now \<and> seedProv_Seed (setts acc) = Inr seed \<and>
      api_GetBalances (setts acc)
        (primaryAddrsOf L seed now reqs @ secondaryAddrsOf L seed now reqs) 100 h = Inr balances \<and>
      length (primarySelectionOf now reqs) + length (secondarySelectionOf now reqs)
        \<le> length balances \<and>
      (\<forall>a \<in> set (secondaryAddrsOf L seed now reqs).
         \<forall>m. hasIncomingConsistentValueTransfer acc a \<noteq> Panic m) \<and>
      primaryTotal (primarySelectionOf now reqs) balances +
        secondaryTotal (secondarySelectionOf now reqs)
          (drop (length (primarySelectionOf now reqs)) balances) < unat tv \<longrightarrow>
      defaultInputSelection L acc w tv False = Return (0, [], [], Some ErrInsufficientBalance)) \<and>
   (\<forall>strategy recipients sm ins rem e.
      running acc \<and> recipients \<noteq> [] \<and>
      \<not> list_ex (\<lambda>target. \<not> IsTrytesOfExactLength L (tr_Address target)
                   (HashTrytesSize L + AddressChecksumTrytesSize L)) recipients \<and>
      0 < Recipients_Sum recipients \<and>
      strategy acc (log Lock w) (Recipients_Sum recipients) False =
        Return (sm, ins, rem, Some e) \<longrightarrow>
      Send L strategy acc w recipients =
        (Return (Inl (Wrap e ''failed to perform input selection in send op.'')), acc,
         log Unlock (log Lock w)))"
proof -
  have a: "\<forall>sm ins rem e.
      defaultInputSelection L acc w tv False = Return (sm, ins, rem, Some e) \<longrightarrow>
        sm = 0 \<and> ins = [] \<and> rem = []"
    using defaultInputSelection_error_discards by blast
  have b: "\<forall>reqs h now seed balances.
      store_GetDepositRequests (setts acc) w = Inr reqs \<and> \<not> list_ex unfunded reqs \<and>
      api_GetLatestSolidSubtangleMilestone (setts acc) = Inr h \<and>
      clock_Now (setts acc) = Inr now \<and> seedProv_Seed (setts acc) = Inr seed \<and>
      api_GetBalances (setts acc)
        (primaryAddrsOf L seed now reqs @ secondaryAddrsOf L seed now reqs) 100 h = Inr balances \<and>
      length (primarySelectionOf now reqs) + length (secondarySelectionOf now reqs)
        \<le> length balances \<and>
      (\<forall>a \<in> set (secondaryAddrsOf L seed now reqs).
         \<forall>m. hasIncomingConsistentValueTransfer acc a \<noteq> Panic m) \<and>
      primaryTotal (primarySelectionOf now reqs) balances +
        secondaryTotal (secondarySelectionOf now reqs)
          (drop (length (primarySelectionOf now reqs)) balances) < unat tv \<longrightarrow>
      defaultInputSelection L acc w tv False = Return (0, [], [], Some ErrInsufficientBalance)"
    using defaultInputSelection_insufficient by blast
  have c: "\<forall>strategy recipients sm ins rem e.
      running acc \<and> recipients \<noteq> [] \<and>
      \<not> list_ex (\<lambda>target. \<not> IsTrytesOfExactLength L (tr_Address target)
                   (HashTrytesSize L + AddressChecksumTrytesSize L)) recipients \<and>
      0 < Recipients_Sum recipients \<and>
      strategy acc (log Lock w) (Recipients_Sum recipients) False =
        Return (sm, ins, rem, Some e) \<longrightarrow>
      Send L strategy acc w recipients =
        (Return (Inl (Wrap e ''failed to perform input selection in send op.'')), acc,
         log Unlock (log Lock w))"
    using Send_selection_failed by blast
  from a b c show ?thesis by blast
qed

theorem insufficient_balance_frees_nothing_witness:
  "defaultInputSelection L0 acc0 w_timedout 5 False =
     Return (0, [], [], Some ErrInsufficientBalance) \<and>
   Send L0 (defaultInputSelection L0) acc0 w_timedout rs5 =
     (Return (Inl (Wrap ErrInsufficientBalance ''failed to perform input selection in send op.'')),
      acc0, log Unlock (log Lock w_timedout)) \<and>
   store (log Unlock (log Lock w_timedout)) = store w_timedout"
proof -
  note T = insufficient_balance_frees_nothing [of L0 acc0 w_timedout 5]
  note T2 = T [THEN conjunct2, THEN conjunct1, rule_format,
      of "[(3, dr_timedout)]" "''M''" 0 "''SEED''" "[0]"]
  note T3 = T [THEN conjunct2, THEN conjunct2, rule_format,
      of rs5 "defaultInputSelection L0" 0 "[]" "[]" ErrInsufficientBalance]
  have g: "store_GetDepositRequests (setts acc0) w_timedout = Inr [(3, dr_timedout)]"
    by (simp add: store_GetDepositRequests_def acc0_def S0_def w_timedout_def w0_def)
  have b: "api_GetBalances (setts acc0)
      (primaryAddrsOf L0 ''SEED'' 0 [(3, dr_timedout)] @
       secondaryAddrsOf L0 ''SEED'' 0 [(3, dr_timedout)]) 100 ''M'' = Inr [0]"
    by (simp add: selection_timedout acc0_def S0_def)
  have len: "length (primarySelectionOf 0 [(3, dr_timedout)]) +
      length (secondarySelectionOf 0 [(3, dr_timedout)]) \<le> length [0 :: uint64]"
    by (simp add: selection_timedout)
  have np: "\<forall>a \<in> set (secondaryAddrsOf L0 ''SEED'' 0 [(3, dr_timedout)]).
      \<forall>m. hasIncomingConsistentValueTransfer acc0 a \<noteq> Panic m"
    by (simp add: acc0_no_bundles)
  have below: "primaryTotal (primarySelectionOf 0 [(3, dr_timedout)]) [0] +
      secondaryTotal (secondarySelectionOf 0 [(3, dr_timedout)])
        (drop (length (primarySelectionOf 0 [(3, dr_timedout)])) [0]) < unat (5 :: uint64)"
    by (simp add: selection_timedout primaryTotal_def secondaryTotal_def)
  have sel: "defaultInputSelection L0 acc0 w_timedout 5 False =
      Return (0, [], [], Some ErrInsufficientBalance)"
    by (rule T2) (intro conjI g selection_timedout(5) acc0_collaborators(1,2,3) b len np below)
  then have sel': "defaultInputSelection L0 acc0 (log Lock w_timedout) (Recipients_Sum rs5) False =
      Return (0, [], [], Some ErrInsufficientBalance)"
    by (simp add: defaultInputSelection_log rs5_valid(2))
  have pos: "0 < Recipients_Sum rs5" by (simp add: rs5_valid(2))
  have snd: "Send L0 (defaultInputSelection L0) acc0 w_timedout rs5 =
     (Return (Inl (Wrap ErrInsufficientBalance ''failed to perform input selection in send op.'')),
      acc0, log Unlock (log Lock w_timedout))"
    by (rule T3) (intro conjI acc0_collaborators(4) rs5_valid(1) rs5_valid(3) pos sel')
  show ?thesis using sel snd by (simp add: log_def)
qed

section \<open>A consistency check that fails\<close>

lemma acc_node_down_collaborators:
  "api_GetLatestSolidSubtangleMilestone (setts acc_node_down) = Inr ''M''"
  "clock_Now (setts acc_node_down) = Inr 0"
  "seedProv_Seed (setts acc_node_down) = Inr ''SEED''"
  "api_GetBalances (setts acc_node_down) ([''A''] @ [''C'', ''B'']) 100 ''M'' = Inr [40, 0, 70]"
  "store_GetDepositRequests (setts acc_node_down) w_mixed = Inr reqs_mixed"
  "hasIncomingConsistentValueTransfer acc_node_down a =
     Return (False, Some (Collaborator ''node down''))"
  by (simp_all add: acc_node_down_def acc0_def S0_def store_GetDepositRequests_def w_mixed_def
      w0_def hasIncomingConsistentValueTransfer_def)

lemma primary_mixed_eval:
  "primaryLoop False 100 [40, 0, 70] [''A''] 0 [\<lparr>keyIndex = 1, req = dr_remainder\<rparr>] (0, [], []) =
     Return (40, [input_A], [1])"
  by (simp add: index_def dr_remainder_def addAsInput_def markForRemoval_def input_A_def)

lemma secondary_mixed_eval:
  "secondaryLoop acc_node_down False 100 [40, 0, 70] 1 [''C'', ''B''] (Suc 0)
     [\<lparr>keyIndex = 2, req = dr_timedout\<rparr>] (40, [input_A], [1]) =
     Return (110, [input_A, input_B], [1, 2])"
  by (simp add: index_def dr_timedout_def addAsInput_def markForRemoval_def input_B_def)

text \<open>
  C8. When the secondary pass reaches a timed-out address whose balance is zero and the
  consistency check of that address returns an error, the pass goes on with the remaining
  secondary addresses from the same sum, inputs and indices for removal: the address is
  not marked, and the error is dropped. So, when the pass returns and the key index of
  that address was not marked or selected before and is not the key index of a later
  secondary address, it is neither among the indices for removal nor among the inputs.
\<close>

theorem probe_failure_keeps_address:
  assumes "index secondaryAddrs i = Return addr"
    and "index balances (startPosSecondary + i) = Return 0"
    and "hasIncomingConsistentValueTransfer acc addr = Return (has, Some e)"
  shows "secondaryLoop acc bc tv balances startPosSecondary secondaryAddrs i (s # rest)
           (sm, ins, rem) =
         secondaryLoop acc bc tv balances startPosSecondary secondaryAddrs (Suc i) rest
           (sm, ins, rem) \<and>
         (\<forall>sm' ins' rem'.
            secondaryLoop acc bc tv balances startPosSecondary secondaryAddrs i (s # rest)
              (sm, ins, rem) = Return (sm', ins', rem') \<and>
            keyIndex s \<notin> set rem \<and> keyIndex s \<notin> in_KeyIndex ` set ins \<and>
            keyIndex s \<notin> keyIndex ` set rest \<longrightarrow>
            keyIndex s \<notin> set rem' \<and> keyIndex s \<notin> in_KeyIndex ` set ins')"
proof -
  have step: "secondaryLoop acc bc tv balances startPosSecondary secondaryAddrs i (s # rest)
           (sm, ins, rem) =
         secondaryLoop acc bc tv balances startPosSecondary secondaryAddrs (Suc i) rest
           (sm, ins, rem)"
    using assms by simp
  have "keyIndex s \<notin> set rem' \<and> keyIndex s \<notin> in_KeyIndex ` set ins'"
    if r: "secondaryLoop acc bc tv balances startPosSecondary secondaryAddrs (Suc i) rest
              (sm, ins, rem) = Return (sm', ins', rem')"
      and fresh: "keyIndex s \<notin> set rem" "keyIndex s \<notin> in_KeyIndex ` set ins"
        "keyIndex s \<notin> keyIndex ` set rest"
    for sm' ins' rem'
    using secondaryLoop_marks [OF r] fresh by blast
  then show ?thesis unfolding step by blast
qed

theorem probe_failure_keeps_address_witness:
  "hasIncomingConsistentValueTransfer acc_node_down ''C'' =
     Return (False, Some (Collaborator ''node down'')) \<and>
   secondaryLoop acc_node_down False 100 [40, 0, 70] 1 [''C'', ''B''] 0
     [\<lparr>keyIndex = 3, req = dr_timedout\<rparr>, \<lparr>keyIndex = 2, req = dr_timedout\<rparr>]
     (40, [input_A], [1]) =
     Return (110, [input_A, input_B], [1, 2]) \<and>
   defaultInputSelection L0 acc_node_down w_mixed 100 False =
     Return (110, [input_A, input_B], [1, 2], None)"
proof -
  have a: "index [''C'', ''B''] 0 = Return ''C''" by (simp add: index_def)
  have b: "index [40, 0, 70 :: uint64] (1 + 0) = Return 0" by (simp add: index_def)
  note T = probe_failure_keeps_address
    [OF a b acc_node_down_collaborators(6) [of "''C''"],
     of False 100 "\<lparr>keyIndex = 3, req = dr_timedout\<rparr>" "[\<lparr>keyIndex = 2, req = dr_timedout\<rparr>]"
       40 "[input_A]" "[1]"]
  from T have step: "secondaryLoop acc_node_down False 100 [40, 0, 70] 1 [''C'', ''B''] 0
     [\<lparr>keyIndex = 3, req = dr_timedout\<rparr>, \<lparr>keyIndex = 2, req = dr_timedout\<rparr>]
     (40, [input_A], [1]) =
     secondaryLoop acc_node_down False 100 [40, 0, 70] 1 [''C'', ''B''] (Suc 0)
     [\<lparr>keyIndex = 2, req = dr_timedout\<rparr>] (40, [input_A], [1])"
    by (rule conjunct1)
  have loop: "secondaryLoop acc_node_down False 100 [40, 0, 70] 1 [''C'', ''B''] 0
     [\<lparr>keyIndex = 3, req = dr_timedout\<rparr>, \<lparr>keyIndex = 2, req = dr_timedout\<rparr>]
     (40, [input_A], [1]) = Return (110, [input_A, input_B], [1, 2])"
    unfolding step by (rule secondary_mixed_eval)
  have ne: "reqs_mixed \<noteq> []" by (simp add: reqs_mixed_def)
  have loop': "secondaryLoop acc_node_down False 100 [40, 0, 70] (Suc 0) [''C'', ''B''] 0
     [\<lparr>keyIndex = 3, req = dr_timedout\<rparr>, \<lparr>keyIndex = 2, req = dr_timedout\<rparr>]
     (40, [input_A], [1]) = Return (110, [input_A, input_B], [1, 2])"
    using loop by (simp del: secondaryLoop.simps)
  have sel: "defaultInputSelection L0 acc_node_down w_mixed 100 False =
     Return (110, [input_A, input_B], [1, 2], None)"
    unfolding defaultInputSelection_def
    by (simp add: acc_node_down_collaborators(1-5) [simplified] ne partition_mixed
        primary_mixed_eval loop'
        del: primaryLoop.simps secondaryLoop.simps partitionLoop.simps)
  show ?thesis
    by (intro conjI acc_node_down_collaborators(6) loop sel)
qed

section \<open>Key indices of the deposit allocator\<close>

lemma allocateDepositRequest_index:
  "allocateDepositRequest L acc w q = (res, acc1, w1) \<Longrightarrow>
   seedProv_Seed (setts acc) = Inr seed \<Longrightarrow>
   lastKeyIndex acc1 = lastKeyIndex acc + 1 \<and> setts acc1 = setts acc \<and>
   (\<exists>t. trace w1 = trace w @ t \<and>
      (writtenIndices t = [] \<or> writtenIndices t = [lastKeyIndex acc + 1]) \<and>
      (requestIndices t = [] \<or> requestIndices t = [lastKeyIndex acc + 1]))"
  by (auto simp: allocateDepositRequest_def Let_def store_WriteIndex_def
      store_AddDepositRequest_def log_def writtenIndices_def requestIndices_def
      split: sum.splits option.splits prod.splits)

lemma allocateDepositRequest_no_seed:
  "seedProv_Seed (setts acc) = Inl e \<Longrightarrow> allocateDepositRequest L acc w q = (Inl e, acc, w)"
  by (simp add: allocateDepositRequest_def)

lemma AllocateDepositRequest_index:
  "AllocateDepositRequest L acc w q = (res, acc1, w1) \<Longrightarrow>
   \<exists>t. trace w1 = trace w @ t \<and>
     (writtenIndices t = [] \<or> writtenIndices t = [lastKeyIndex acc + 1]) \<and>
     (requestIndices t = [] \<or> requestIndices t = [lastKeyIndex acc + 1]) \<and>
     (lastKeyIndex acc1 = lastKeyIndex acc \<and> writtenIndices t = [] \<and> requestIndices t = [] \<or>
      lastKeyIndex acc1 = lastKeyIndex acc + 1)"
proof -
  assume A: "AllocateDepositRequest L acc w q = (res, acc1, w1)"
  obtain r0 a0 v0 where body: "(if \<not> running acc then (Inl ErrAccountNotRunning, acc, log Lock w)
       else
         (case TimeoutAt q of
            None \<Rightarrow> (Inl ErrTimeoutNotSpecified, acc, log Lock w)
          | Some timeoutAt \<Rightarrow>
              (case clock_Now (setts acc) of
                 Inl e \<Rightarrow> (Inl e, acc, log Lock w)
               | Inr currentTime \<Rightarrow>
                   if timeoutAt + - (5 * Minute) < currentTime
                   then (Inl ErrTimeoutTooLow, acc, log Lock w)
                   else allocateDepositRequest L acc (log Lock w) q))) = (r0, a0, v0)"
    by (metis prod_cases3)
  from A body have eq: "acc1 = a0" "w1 = log Unlock v0"
    by (simp_all add: AllocateDepositRequest_def withLock_def)
  have inner: "\<exists>t. trace v0 = trace (log Lock w) @ t \<and>
     (writtenIndices t = [] \<or> writtenIndices t = [lastKeyIndex acc + 1]) \<and>
     (requestIndices t = [] \<or> requestIndices t = [lastKeyIndex acc + 1]) \<and>
     (lastKeyIndex a0 = lastKeyIndex acc \<and> writtenIndices t = [] \<and> requestIndices t = [] \<or>
      lastKeyIndex a0 = lastKeyIndex acc + 1)"
  proof (cases "allocateDepositRequest L acc (log Lock w) q = (r0, a0, v0)")
    case True
    show ?thesis
    proof (cases "seedProv_Seed (setts acc)")
      case (Inl e)
      from allocateDepositRequest_no_seed [OF this, of L "log Lock w" q] True
      have "a0 = acc" "v0 = log Lock w" by simp_all
      then show ?thesis by (simp add: writtenIndices_def requestIndices_def)
    next
      case (Inr seed)
      from allocateDepositRequest_index [OF True Inr] show ?thesis by auto
    qed
  next
    case False
    with body have "a0 = acc \<and> v0 = log Lock w"
      by (auto split: if_splits option.splits sum.splits)
    then show ?thesis by (simp add: writtenIndices_def requestIndices_def)
  qed
  then obtain t where t: "trace v0 = trace (log Lock w) @ t"
    and wi: "writtenIndices t = [] \<or> writtenIndices t = [lastKeyIndex acc + 1]"
    and ri: "requestIndices t = [] \<or> requestIndices t = [lastKeyIndex acc + 1]"
    and lk: "lastKeyIndex a0 = lastKeyIndex acc \<and> writtenIndices t = [] \<and> requestIndices t = [] \<or>
      lastKeyIndex a0 = lastKeyIndex acc + 1"
    by blast
  have tr: "trace w1 = trace w @ (Lock # t @ [Unlock])"
    using t eq by (simp add: log_def)
  have w': "writtenIndices (Lock # t @ [Unlock]) = writtenIndices t"
    and r': "requestIndices (Lock # t @ [Unlock]) = requestIndices t"
    by (simp_all add: writtenIndices_def requestIndices_def)
  show ?thesis
    using tr wi ri lk unfolding eq(1) w' [symmetric] r' [symmetric] by blast
qed

lemma writtenIndices_append: "writtenIndices (t1 @ t2) = writtenIndices t1 @ writtenIndices t2"
  by (simp add: writtenIndices_def)

lemma requestIndices_append: "requestIndices (t1 @ t2) = requestIndices t1 @ requestIndices t2"
  by (simp add: requestIndices_def)

lemma uint64_succ:
  fixes k :: uint64
  assumes "unat k + 1 < 2 ^ 64"
  shows "unat (k + 1) = unat k + 1" and "k < k + 1"
proof -
  have "unat k + unat (1 :: uint64) < 2 ^ LENGTH(64)" using assms by simp
  then have "unat (k + 1) = unat k + unat (1 :: uint64)"
    using unat_add_lem [of k 1] by blast
  then show u: "unat (k + 1) = unat k + 1" by simp
  show "k < k + 1" using u by (simp add: word_less_nat_alt)
qed

lemma allocateAll_indices:
  "allocateAll L acc w calls = (acc', w') \<Longrightarrow>
   unat (lastKeyIndex acc) + length calls < 2 ^ 64 \<Longrightarrow>
   \<exists>t. trace w' = trace w @ t \<and>
     sorted_wrt (<) (writtenIndices t) \<and> sorted_wrt (<) (requestIndices t) \<and>
     (\<forall>k \<in> set (writtenIndices t) \<union> set (requestIndices t).
        lastKeyIndex acc < k \<and> k \<le> lastKeyIndex acc') \<and>
     lastKeyIndex acc \<le> lastKeyIndex acc' \<and>
     unat (lastKeyIndex acc') \<le> unat (lastKeyIndex acc) + length calls"
proof (induction calls arbitrary: acc w)
  case Nil
  then show ?case by (simp add: writtenIndices_def requestIndices_def)
next
  case (Cons c calls)
  obtain S r where c: "c = (S, r)" by (cases c)
  obtain res acc1 w1 where A: "AllocateDepositRequest L (acc\<lparr>setts := S\<rparr>) w r = (res, acc1, w1)"
    by (metis prod_cases3)
  from Cons.prems(1) have rest: "allocateAll L acc1 w1 calls = (acc', w')"
    by (simp add: c A)
  define k0 where "k0 = lastKeyIndex acc"
  from AllocateDepositRequest_index [OF A] obtain t1 where
    t1: "trace w1 = trace w @ t1"
    and wi: "writtenIndices t1 = [] \<or> writtenIndices t1 = [k0 + 1]"
    and ri: "requestIndices t1 = [] \<or> requestIndices t1 = [k0 + 1]"
    and lk: "lastKeyIndex acc1 = k0 \<and> writtenIndices t1 = [] \<and> requestIndices t1 = [] \<or>
      lastKeyIndex acc1 = k0 + 1"
    by (auto simp: k0_def)
  from Cons.prems(2) have room: "unat k0 + 1 < 2 ^ 64" by (simp add: k0_def)
  note succ = uint64_succ [OF room]
  from lk succ(1) have le1: "unat (lastKeyIndex acc1) \<le> unat k0 + 1" by auto
  with Cons.prems(2) have "unat (lastKeyIndex acc1) + length calls < 2 ^ 64"
    by (simp add: k0_def)
  from Cons.IH [OF rest this] obtain t2 where
    t2: "trace w' = trace w1 @ t2"
    and sw: "sorted_wrt (<) (writtenIndices t2)" and sr: "sorted_wrt (<) (requestIndices t2)"
    and rng: "\<forall>k \<in> set (writtenIndices t2) \<union> set (requestIndices t2).
        lastKeyIndex acc1 < k \<and> k \<le> lastKeyIndex acc'"
    and mono: "lastKeyIndex acc1 \<le> lastKeyIndex acc'"
    and bnd: "unat (lastKeyIndex acc') \<le> unat (lastKeyIndex acc1) + length calls"
    by blast
  have tr: "trace w' = trace w @ (t1 @ t2)" using t1 t2 by simp
  have k01: "k0 \<le> lastKeyIndex acc1" using lk succ(2) by auto
  have bnd': "unat (lastKeyIndex acc') \<le> unat k0 + length (c # calls)"
    using bnd le1 by simp
  have mono': "k0 \<le> lastKeyIndex acc'" using k01 mono by (rule order_trans)
  have later: "k0 < k \<and> k \<le> lastKeyIndex acc'"
    if "k \<in> set (writtenIndices t2) \<union> set (requestIndices t2)" for k
  proof -
    from rng that have lt: "lastKeyIndex acc1 < k" and le: "k \<le> lastKeyIndex acc'" by auto
    from k01 lt have "k0 < k" by (rule le_less_trans)
    with le show ?thesis by simp
  qed
  have first: "k0 < k \<and> k \<le> lastKeyIndex acc' \<and>
      (\<forall>k' \<in> set (writtenIndices t2) \<union> set (requestIndices t2). k < k')"
    if "k \<in> set (writtenIndices t1) \<union> set (requestIndices t1)" for k
  proof -
    from that wi ri have k: "k = k0 + 1" by auto
    from that lk have a1: "lastKeyIndex acc1 = k0 + 1" by auto
    show ?thesis using k a1 succ(2) mono rng by auto
  qed
  have s1: "sorted_wrt (<) (writtenIndices t1)" "sorted_wrt (<) (requestIndices t1)"
    using wi ri by auto
  have sortw: "sorted_wrt (<) (writtenIndices (t1 @ t2))"
    unfolding writtenIndices_append sorted_wrt_append using s1 sw first by auto
  have sortr: "sorted_wrt (<) (requestIndices (t1 @ t2))"
    unfolding requestIndices_append sorted_wrt_append using s1 sr first by auto
  have range: "\<forall>k \<in> set (writtenIndices (t1 @ t2)) \<union> set (requestIndices (t1 @ t2)).
      k0 < k \<and> k \<le> lastKeyIndex acc'"
    unfolding writtenIndices_append requestIndices_append using first later by auto
  show ?case
    using tr sortw sortr range mono' bnd' unfolding k0_def by blast
qed

lemma calls3_eval:
  "writtenIndices (trace (snd (allocateAll L0 acc0 w0 calls3))) = [3, 4, 5] \<and>
   requestIndices (trace (snd (allocateAll L0 acc0 w0 calls3))) = [3, 5] \<and>
   lastKeyIndex (fst (allocateAll L0 acc0 w0 calls3)) = 5"
  by (simp add: calls3_def S_index4_fails_def acc0_def S0_def L0_def w0_def r_5min_def
      AllocateDepositRequest_def withLock_def allocateDepositRequest_def Minute_def Let_def
      store_WriteIndex_def store_AddDepositRequest_def log_def writtenIndices_def
      requestIndices_def)

lemma acc_last_eval:
  "lastKeyIndex (fst (snd (AllocateDepositRequest L0 acc_last w0 r_5min))) = 0 \<and>
   writtenIndices (trace (snd (snd (AllocateDepositRequest L0 acc_last w0 r_5min)))) = [0] \<and>
   requestIndices (trace (snd (snd (AllocateDepositRequest L0 acc_last w0 r_5min)))) = [0]"
  by (simp add: acc_last_def acc0_def S0_def L0_def w0_def r_5min_def
      AllocateDepositRequest_def withLock_def allocateDepositRequest_def Minute_def Let_def
      store_WriteIndex_def store_AddDepositRequest_def log_def writtenIndices_def
      requestIndices_def)

text \<open>
  C3, as the claim states it, fails twice. An allocation that fails at the seed provider
  does not increment the last key index: it returns before the increment. And the
  increment wraps around: on an account whose last key index is the largest \<^verbatim>\<open>uint64\<close>,
  the next allocation writes the key index 0 and stores its request under 0, which
  is not greater than the index before.
\<close>

theorem key_index_wraps_counterexample:
  "allocateDepositRequest L0 acc_seedless w0 r_5min =
     (Inl (Collaborator ''no seed''), acc_seedless, w0) \<and>
   lastKeyIndex acc_last = 18446744073709551615 \<and>
   lastKeyIndex (fst (snd (AllocateDepositRequest L0 acc_last w0 r_5min))) = 0 \<and>
   writtenIndices (trace (snd (snd (AllocateDepositRequest L0 acc_last w0 r_5min)))) = [0] \<and>
   requestIndices (trace (snd (snd (AllocateDepositRequest L0 acc_last w0 r_5min)))) = [0]"
proof -
  have a: "allocateDepositRequest L0 acc_seedless w0 r_5min =
     (Inl (Collaborator ''no seed''), acc_seedless, w0)"
    by (rule allocateDepositRequest_no_seed) (simp add: acc_seedless_def)
  have b: "lastKeyIndex acc_last = 18446744073709551615"
    by (simp add: acc_last_def)
  from a b acc_last_eval show ?thesis by (intro conjI) simp_all
qed

text \<open>
  C3, amended. An allocation that obtains the seed increments the last key index before
  it persists anything, and the increment stays whether the allocation then succeeds or
  fails at address generation, index persistence or deposit-request persistence: the
  account's last key index is one more than before, and the only key index the store is
  asked to write or to add a request under is that new one. An allocation that fails at
  the seed provider changes neither the account nor the store. Over any sequence of
  \<^verbatim>\<open>AllocateDepositRequest\<close> calls on an account, whatever the collaborators answer each
  call, as long as the last key index does not wrap around (its value plus the number of
  calls is below \<open>2 ^ 64\<close>), the key indices the store is asked to write, and those it is
  asked to add requests under, are strictly increasing, hence never repeat, and all
  greater than the last key index at the start: an index may be skipped, none is reused.
\<close>

theorem key_indices_strictly_increase:
  "(\<forall>seed res acc1 w1.
      seedProv_Seed (setts acc) = Inr seed \<and>
      allocateDepositRequest L acc w q = (res, acc1, w1) \<longrightarrow>
        lastKeyIndex acc1 = lastKeyIndex acc + 1 \<and>
        (\<exists>t. trace w1 = trace w @ t \<and>
           (writtenIndices t = [] \<or> writtenIndices t = [lastKeyIndex acc + 1]) \<and>
           (requestIndices t = [] \<or> requestIndices t = [lastKeyIndex acc + 1]))) \<and>
   (\<forall>e. seedProv_Seed (setts acc) = Inl e \<longrightarrow>
      allocateDepositRequest L acc w q = (Inl e, acc, w)) \<and>
   (\<forall>calls acc' w'.
      allocateAll L acc w calls = (acc', w') \<and>
      unat (lastKeyIndex acc) + length calls < 2 ^ 64 \<longrightarrow>
        (\<exists>t. trace w' = trace w @ t \<and>
           sorted_wrt (<) (writtenIndices t) \<and> sorted_wrt (<) (requestIndices t) \<and>
           (\<forall>k \<in> set (writtenIndices t) \<union> set (requestIndices t).
              lastKeyIndex acc < k \<and> k \<le> lastKeyIndex acc')))"
proof -
  have a: "\<forall>seed res acc1 w1.
      seedProv_Seed (setts acc) = Inr seed \<and>
      allocateDepositRequest L acc w q = (res, acc1, w1) \<longrightarrow>
        lastKeyIndex acc1 = lastKeyIndex acc + 1 \<and>
        (\<exists>t. trace w1 = trace w @ t \<and>
           (writtenIndices t = [] \<or> writtenIndices t = [lastKeyIndex acc + 1]) \<and>
           (requestIndices t = [] \<or> requestIndices t = [lastKeyIndex acc + 1]))"
    using allocateDepositRequest_index by blast
  have b: "\<forall>e. seedProv_Seed (setts acc) = Inl e \<longrightarrow>
      allocateDepositRequest L acc w q = (Inl e, acc, w)"
    using allocateDepositRequest_no_seed by blast
  have c: "\<forall>calls acc' w'.
      allocateAll L acc w calls = (acc', w') \<and>
      unat (lastKeyIndex acc) + length calls < 2 ^ 64 \<longrightarrow>
        (\<exists>t. trace w' = trace w @ t \<and>
           sorted_wrt (<) (writtenIndices t) \<and> sorted_wrt (<) (requestIndices t) \<and>
           (\<forall>k \<in> set (writtenIndices t) \<union> set (requestIndices t).
              lastKeyIndex acc < k \<and> k \<le> lastKeyIndex acc'))"
  proof (intro allI impI)
    fix calls acc' w'
    assume h: "allocateAll L acc w calls = (acc', w') \<and>
      unat (lastKeyIndex acc) + length calls < 2 ^ 64"
    from allocateAll_indices [OF conjunct1 [OF h] conjunct2 [OF h]]
    show "\<exists>t. trace w' = trace w @ t \<and>
           sorted_wrt (<) (writtenIndices t) \<and> sorted_wrt (<) (requestIndices t) \<and>
           (\<forall>k \<in> set (writtenIndices t) \<union> set (requestIndices t).
              lastKeyIndex acc < k \<and> k \<le> lastKeyIndex acc')"
      by blast
  qed
  from a b c show ?thesis by (intro conjI)
qed

theorem key_indices_strictly_increase_witness:
  "unat (lastKeyIndex acc0) + length calls3 < 2 ^ 64 \<and>
   writtenIndices (drop (length (trace w0)) (trace (snd (allocateAll L0 acc0 w0 calls3)))) =
     [3, 4, 5] \<and>
   requestIndices (drop (length (trace w0)) (trace (snd (allocateAll L0 acc0 w0 calls3)))) =
     [3, 5] \<and>
   lastKeyIndex (fst (allocateAll L0 acc0 w0 calls3)) = 5 \<and>
   sorted_wrt (<) [3, 4, 5 :: uint64] \<and>
   allocateDepositRequest L0 acc_seedless w0 r_5min =
     (Inl (Collaborator ''no seed''), acc_seedless, w0)"
proof -
  note T = key_indices_strictly_increase [of acc0 L0 w0 r_5min]
  note U = key_indices_strictly_increase [of acc_seedless L0 w0 r_5min]
  have room: "unat (lastKeyIndex acc0) + length calls3 < 2 ^ 64"
    by (simp add: acc0_def calls3_def)
  obtain a' w' where run: "allocateAll L0 acc0 w0 calls3 = (a', w')" by (cases "allocateAll L0 acc0 w0 calls3")
  from T [THEN conjunct2, THEN conjunct2, rule_format, of calls3 a' w'] run room
  obtain t where t: "trace w' = trace w0 @ t" and sw: "sorted_wrt (<) (writtenIndices t)"
    by blast
  have tw: "trace w0 = []" by (simp add: w0_def)
  have ev: "writtenIndices (trace w') = [3, 4, 5]" "requestIndices (trace w') = [3, 5]"
    "lastKeyIndex a' = 5"
    using calls3_eval by (simp_all add: run)
  have s: "sorted_wrt (<) [3, 4, 5 :: uint64]"
    using sw t tw ev(1) by simp
  have ns: "seedProv_Seed (setts acc_seedless) = Inl (Collaborator ''no seed'')"
    by (simp add: acc_seedless_def)
  from U [THEN conjunct2, THEN conjunct1, rule_format, OF ns]
  have u: "allocateDepositRequest L0 acc_seedless w0 r_5min =
     (Inl (Collaborator ''no seed''), acc_seedless, w0)" .
  show ?thesis
    using room ev s u by (simp add: run tw)
qed

section \<open>Persistence before broadcast\<close>

text \<open>
  C9. In every execution of \<^verbatim>\<open>Send\<close>, whatever the input selection strategy and the
  collaborators answer, the trace grows by effects of which the store's
  \<^verbatim>\<open>AddPendingTransfer\<close> and the ledger's \<^verbatim>\<open>StoreAndBroadcast\<close> are as follows. When
  the call is rejected, or the selection or the preparation stops before there is a
  pending transfer to persist: none, the pending transfers of the store are unchanged and
  \<^verbatim>\<open>Send\<close> does not return a bundle. Else the pending transfer is the tail hash (the hash
  of the first of the proof-of-worked trytes), those trytes, and the key indices that the
  strategy returned for removal. When the store refuses it: that one failed
  \<^verbatim>\<open>AddPendingTransfer\<close> and no broadcast, the pending transfers unchanged, and \<^verbatim>\<open>Send\<close>
  returns the store's error wrapped as "unable to store pending transfer in send op.".
  When the store accepts it: that \<^verbatim>\<open>AddPendingTransfer\<close> followed by one
  \<^verbatim>\<open>StoreAndBroadcast\<close> of the same trytes and nothing else, the store holds the pending
  transfer as its last one and none of the freed key indices among its deposit requests,
  and \<^verbatim>\<open>Send\<close> returns what the broadcast gives. So the pending transfer is persisted
  strictly before the broadcast, and a \<^verbatim>\<open>Send\<close> that returns a bundle has persisted and
  broadcast it.
\<close>

theorem Send_persists_before_broadcast:
  "Send L strategy acc w recipients = (r, acc', w') \<Longrightarrow>
     \<exists>t. trace w' = trace w @ t \<and>
       (case (if admitted L acc recipients
              then pendingTransferOf L strategy acc (log Lock w) recipients else None) of
          None \<Rightarrow>
            persistAndBroadcast t = [] \<and>
            PendingTransfers (store w') = PendingTransfers (store w) \<and>
            (\<forall>bndl. r \<noteq> Return (Inr bndl))
        | Some p \<Rightarrow>
            (case AddPendingTransfer_fails (setts acc) (pt_Tail p) (pt_Bundle p) (pt_Indices p) of
               Some e \<Rightarrow>
                 persistAndBroadcast t =
                   [AddPendingTransfer (pt_Tail p) (pt_Bundle p) (pt_Indices p) False] \<and>
                 PendingTransfers (store w') = PendingTransfers (store w) \<and>
                 r = Return (Inl (Wrap e ''unable to store pending transfer in send op.''))
             | None \<Rightarrow>
                 persistAndBroadcast t =
                   [AddPendingTransfer (pt_Tail p) (pt_Bundle p) (pt_Indices p) True,
                    StoreAndBroadcast (pt_Bundle p)] \<and>
                 PendingTransfers (store w') = PendingTransfers (store w) @ [p] \<and>
                 (\<forall>k\<in>set (pt_Indices p). k \<notin> fst ` set (DepositRequests (store w'))) \<and>
                 r = broadcastResult L (setts acc) (pt_Bundle p)))"
proof -
  assume S: "Send L strategy acc w recipients = (r, acc', w')"
  let ?p = "if admitted L acc recipients
            then pendingTransferOf L strategy acc (log Lock w) recipients else None"
  have "\<exists>t. trace w' = trace w @ t \<and> submitted L (setts acc) ?p t (store w) (store w') r"
  proof (cases "admitted L acc recipients")
    case False
    with S have "trace w' = trace w @ [Lock, Unlock]" "store w' = store w"
        "\<forall>bndl. r \<noteq> Return (Inr bndl)"
      by (auto simp: Send_def withLock_def log_def admitted_iff split: if_splits)
    then have "trace w' = trace w @ [Lock, Unlock] \<and>
        submitted L (setts acc) None [Lock, Unlock] (store w) (store w') r"
      by (simp add: submitted_def persistAndBroadcast_def)
    then show ?thesis using False by auto
  next
    case True
    obtain r1 a1 w1 where s: "send L strategy acc (log Lock w) recipients = (r1, a1, w1)"
      by (metis prod_cases3)
    with S True have eq: "r = r1" "w' = log Unlock w1"
      by (auto simp: Send_def withLock_def admitted_iff)
    from send_pending [OF s] obtain t where
      t: "trace w1 = trace (log Lock w) @ t" and
      sub: "submitted L (setts acc) (pendingTransferOf L strategy acc (log Lock w) recipients) t
              (store (log Lock w)) (store w1) r1"
      by blast
    have tr: "trace w' = trace w @ (Lock # t @ [Unlock])"
      using t eq by (simp add: log_def)
    have pb: "persistAndBroadcast (Lock # t @ [Unlock]) = persistAndBroadcast t"
      by (simp add: persistAndBroadcast_def)
    have st: "store w' = store w1" "store (log Lock w) = store w"
      using eq by (simp_all add: log_def)
    have "submitted L (setts acc) ?p (Lock # t @ [Unlock]) (store w) (store w') r"
      using sub True by (simp add: submitted_cong [OF pb] st eq(1))
    with tr show ?thesis by blast
  qed
  then show ?thesis unfolding submitted_def .
qed

text \<open>
  A transfer of 100 from the addresses \<open>A\<close> and \<open>B\<close>, which hold 40 and 70: both are
  spent, their key indices 1 and 2 are freed, and the remainder of 10 goes to a new
  request under key index 3.
\<close>

lemma selection_AB_eval:
  assumes "api_GetLatestSolidSubtangleMilestone (setts acc) = Inr ''M''"
    and "clock_Now (setts acc) = Inr 0" and "seedProv_Seed (setts acc) = Inr ''SEED''"
    and "GetDepositRequests_fails (setts acc) = None"
    and "api_GetBalances (setts acc) = api_GetBalances S0"
  shows "defaultInputSelection L0 acc w_AB 100 False =
     Return (110, [input_A, input_B], [1, 2], None)"
proof -
  have g: "store_GetDepositRequests (setts acc) w_AB = Inr reqs_AB"
    using assms(4) by (simp add: store_GetDepositRequests_def w_AB_def w0_def)
  have ne: "reqs_AB \<noteq> []" by (simp add: reqs_AB_def)
  have b: "api_GetBalances (setts acc)
      (primaryAddrsOf L0 ''SEED'' 0 reqs_AB @ secondaryAddrsOf L0 ''SEED'' 0 reqs_AB) 100 ''M'' =
      Inr [40, 70]"
    by (simp add: selection_AB assms(5) S0_def)
  have len: "length (primarySelectionOf 0 reqs_AB) \<le> length [40, 70 :: uint64]"
    by (simp add: selection_AB)
  define P where "P = greedyPrefix 100 0 (candidates (primarySelectionOf 0 reqs_AB)
      (primaryAddrsOf L0 ''SEED'' 0 reqs_AB) [40, 70])"
  have Pv: "P = [(selected (1, dr_funded 40), ''A'', 40), (selected (2, dr_funded 70), ''B'', 70)]"
    by (simp add: P_def selection_AB candidates_AB)
  have enough: "100 \<le> balanceSum P" by (simp add: Pv balanceSum_def)
  from defaultInputSelection_primary
    [OF g ne selection_AB(4) assms(1,2,3) b len P_def enough]
  show ?thesis
    by (simp add: Pv balanceSum_def toInput_def selected_def dr_funded_def input_A_def
        input_B_def)
qed

lemma rs100_valid:
  "Recipients_Sum rs100 = 100" "admitted L0 acc0 rs100" "admitted L0 acc_disk_full rs100"
  by (simp_all add: rs100_def Recipients_Sum_def L0_def admitted_def acc0_def acc_disk_full_def)

lemma selection_acc0:
  "defaultInputSelection L0 acc0 (log Lock w_AB) 100 False =
     Return (110, [input_A, input_B], [1, 2], None)"
  unfolding defaultInputSelection_log
  by (rule selection_AB_eval) (simp_all add: acc0_def S0_def)

lemma selection_disk_full:
  "defaultInputSelection L0 acc_disk_full (log Lock w_AB) 100 False =
     Return (110, [input_A, input_B], [1, 2], None)"
  unfolding defaultInputSelection_log
  by (rule selection_AB_eval) (simp_all add: acc_disk_full_def acc0_def S0_def)

lemma remainder_AB_eval:
  "allocateDepositRequest L0 acc0 (log Lock w_AB)
     \<lparr>TimeoutAt = None, MultiUse = False, ExpectedAmount = Some 10\<rparr> =
     (Inr \<lparr>cond_Address = ''C'',
           cond_Request = \<lparr>TimeoutAt = None, MultiUse = False, ExpectedAmount = Some 10\<rparr>\<rparr>,
      acc0\<lparr>lastKeyIndex := 3\<rparr>,
      \<lparr>store = \<lparr>KeyIndex = 3, DepositRequests = reqs_AB @ [(3, dr_funded 10)],
                PendingTransfers = []\<rparr>,
       trace = [Lock, WriteIndex 3 True, AddDepositRequest 3 (dr_funded 10) True]\<rparr>)"
  "allocateDepositRequest L0 acc_disk_full (log Lock w_AB)
     \<lparr>TimeoutAt = None, MultiUse = False, ExpectedAmount = Some 10\<rparr> =
     (Inr \<lparr>cond_Address = ''C'',
           cond_Request = \<lparr>TimeoutAt = None, MultiUse = False, ExpectedAmount = Some 10\<rparr>\<rparr>,
      acc_disk_full\<lparr>lastKeyIndex := 3\<rparr>,
      \<lparr>store = \<lparr>KeyIndex = 3, DepositRequests = reqs_AB @ [(3, dr_funded 10)],
                PendingTransfers = []\<rparr>,
       trace = [Lock, WriteIndex 3 True, AddDepositRequest 3 (dr_funded 10) True]\<rparr>)"
  by (simp_all add: allocateDepositRequest_def store_WriteIndex_def store_AddDepositRequest_def
      acc_disk_full_def acc0_def S0_def L0_def w_AB_def w0_def reqs_AB_def dr_funded_def log_def
      Let_def)

lemma prepared_eval:
  "preparedBundle L0 (setts acc0) targets ins ra = Some (''T0'', [''T0'', ''T1''])"
  "preparedBundle L0 (setts acc_disk_full) targets ins ra = Some (''T0'', [''T0'', ''T1''])"
  by (simp_all add: preparedBundle_def acc_disk_full_def acc0_def S0_def L0_def)

lemma pending_acc0:
  "pendingTransferOf L0 (defaultInputSelection L0) acc0 (log Lock w_AB) rs100 =
     Some \<lparr>pt_Tail = ''T0'', pt_Bundle = [''T0'', ''T1''], pt_Indices = [1, 2]\<rparr>"
  by (simp add: pendingTransferOf_def selectionFor_def rs100_valid(1) selection_acc0
      remainder_AB_eval prepared_eval)

lemma pending_disk_full:
  "pendingTransferOf L0 (defaultInputSelection L0) acc_disk_full (log Lock w_AB) rs100 =
     Some \<lparr>pt_Tail = ''T0'', pt_Bundle = [''T0'', ''T1''], pt_Indices = [1, 2]\<rparr>"
  by (simp add: pendingTransferOf_def selectionFor_def rs100_valid(1) selection_disk_full
      remainder_AB_eval prepared_eval)

lemma sendPrepared_value_eval:
  "sendPrepared L0 (acc0\<lparr>lastKeyIndex := 3\<rparr>)
     \<lparr>store = \<lparr>KeyIndex = 3, DepositRequests = reqs_AB @ [(3, dr_funded 10)],
               PendingTransfers = []\<rparr>,
      trace = [Lock, WriteIndex 3 True, AddDepositRequest 3 (dr_funded 10) True]\<rparr>
     rs100 [input_A, input_B] [1, 2] (Some ''C'') =
     (Return (AsTransactionObjects L0 [''T0'', ''T1'']), acc0\<lparr>lastKeyIndex := 3\<rparr>,
      \<lparr>store = \<lparr>KeyIndex = 3, DepositRequests = [(3, dr_funded 10)],
                PendingTransfers =
                  [\<lparr>pt_Tail = ''T0'', pt_Bundle = [''T0'', ''T1''], pt_Indices = [1, 2]\<rparr>]\<rparr>,
       trace = [Lock, WriteIndex 3 True, AddDepositRequest 3 (dr_funded 10) True,
                AddPendingTransfer ''T0'' [''T0'', ''T1''] [1, 2] True,
                StoreAndBroadcast [''T0'', ''T1''],
                Emit (EventSendingTransfer
                  (map (\<lambda>t. \<lparr>tx_Hash = t, tx_Address = [], tx_Value = 0, tx_Bundle = [],
                      tx_Persistence = None\<rparr>) [''T0'', ''T1'']))]\<rparr>)"
  by (simp add: sendPrepared_def store_AddPendingTransfer_def index_def AsTransfers_def
      acc0_def S0_def L0_def reqs_AB_def log_def Let_def)

lemma sendPrepared_disk_full_eval:
  "sendPrepared L0 (acc_disk_full\<lparr>lastKeyIndex := 3\<rparr>)
     \<lparr>store = \<lparr>KeyIndex = 3, DepositRequests = reqs_AB @ [(3, dr_funded 10)],
               PendingTransfers = []\<rparr>,
      trace = [Lock, WriteIndex 3 True, AddDepositRequest 3 (dr_funded 10) True]\<rparr>
     rs100 [input_A, input_B] [1, 2] (Some ''C'') =
     (Return (Inl (Wrap (Collaborator ''disk full'')
                ''unable to store pending transfer in send op.'')),
      acc_disk_full\<lparr>lastKeyIndex := 3\<rparr>,
      \<lparr>store = \<lparr>KeyIndex = 3, DepositRequests = reqs_AB @ [(3, dr_funded 10)],
                PendingTransfers = []\<rparr>,
       trace = [Lock, WriteIndex 3 True, AddDepositRequest 3 (dr_funded 10) True,
                AddPendingTransfer ''T0'' [''T0'', ''T1''] [1, 2] False]\<rparr>)"
  by (simp add: sendPrepared_def store_AddPendingTransfer_def index_def AsTransfers_def
      acc_disk_full_def acc0_def S0_def L0_def log_def Let_def)

lemma send_value_eval:
  "send L0 (defaultInputSelection L0) acc0 (log Lock w_AB) rs100 =
     (Return (AsTransactionObjects L0 [''T0'', ''T1'']), acc0\<lparr>lastKeyIndex := 3\<rparr>,
      \<lparr>store = \<lparr>KeyIndex = 3, DepositRequests = [(3, dr_funded 10)],
                PendingTransfers =
                  [\<lparr>pt_Tail = ''T0'', pt_Bundle = [''T0'', ''T1''], pt_Indices = [1, 2]\<rparr>]\<rparr>,
       trace = [Lock, WriteIndex 3 True, AddDepositRequest 3 (dr_funded 10) True,
                AddPendingTransfer ''T0'' [''T0'', ''T1''] [1, 2] True,
                StoreAndBroadcast [''T0'', ''T1''],
                Emit (EventSendingTransfer
                  (map (\<lambda>t. \<lparr>tx_Hash = t, tx_Address = [], tx_Value = 0, tx_Bundle = [],
                      tx_Persistence = None\<rparr>) [''T0'', ''T1'']))]\<rparr>)"
  by (simp add: send_def rs100_valid(1) selection_acc0 remainder_AB_eval
      sendPrepared_value_eval)

lemma send_disk_full_eval:
  "send L0 (defaultInputSelection L0) acc_disk_full (log Lock w_AB) rs100 =
     (Return (Inl (Wrap (Collaborator ''disk full'')
                ''unable to store pending transfer in send op.'')),
      acc_disk_full\<lparr>lastKeyIndex := 3\<rparr>,
      \<lparr>store = \<lparr>KeyIndex = 3, DepositRequests = reqs_AB @ [(3, dr_funded 10)],
                PendingTransfers = []\<rparr>,
       trace = [Lock, WriteIndex 3 True, AddDepositRequest 3 (dr_funded 10) True,
                AddPendingTransfer ''T0'' [''T0'', ''T1''] [1, 2] False]\<rparr>)"
  by (simp add: send_def rs100_valid(1) selection_disk_full remainder_AB_eval
      sendPrepared_disk_full_eval)

lemma Send_value_eval:
  "Send L0 (defaultInputSelection L0) acc0 w_AB rs100 =
     (Return (AsTransactionObjects L0 [''T0'', ''T1'']), acc0\<lparr>lastKeyIndex := 3\<rparr>,
      \<lparr>store = \<lparr>KeyIndex = 3, DepositRequests = [(3, dr_funded 10)],
                PendingTransfers =
                  [\<lparr>pt_Tail = ''T0'', pt_Bundle = [''T0'', ''T1''], pt_Indices = [1, 2]\<rparr>]\<rparr>,
       trace = [Lock, WriteIndex 3 True, AddDepositRequest 3 (dr_funded 10) True,
                AddPendingTransfer ''T0'' [''T0'', ''T1''] [1, 2] True,
                StoreAndBroadcast [''T0'', ''T1''],
                Emit (EventSendingTransfer
                  (map (\<lambda>t. \<lparr>tx_Hash = t, tx_Address = [], tx_Value = 0, tx_Bundle = [],
                      tx_Persistence = None\<rparr>) [''T0'', ''T1''])),
                Unlock]\<rparr>)"
  unfolding Send_admitted [OF rs100_valid(2)] send_value_eval
  by (simp add: log_def)

lemma Send_disk_full_eval:
  "Send L0 (defaultInputSelection L0) acc_disk_full w_AB rs100 =
     (Return (Inl (Wrap (Collaborator ''disk full'')
                ''unable to store pending transfer in send op.'')),
      acc_disk_full\<lparr>lastKeyIndex := 3\<rparr>,
      \<lparr>store = \<lparr>KeyIndex = 3, DepositRequests = reqs_AB @ [(3, dr_funded 10)],
                PendingTransfers = []\<rparr>,
       trace = [Lock, WriteIndex 3 True, AddDepositRequest 3 (dr_funded 10) True,
                AddPendingTransfer ''T0'' [''T0'', ''T1''] [1, 2] False, Unlock]\<rparr>)"
  unfolding Send_admitted [OF rs100_valid(3)] send_disk_full_eval
  by (simp add: log_def)

theorem Send_persists_before_broadcast_witness:
  "pendingTransferOf L0 (defaultInputSelection L0) acc0 (log Lock w_AB) rs100 =
     Some \<lparr>pt_Tail = ''T0'', pt_Bundle = [''T0'', ''T1''], pt_Indices = [1, 2]\<rparr> \<and>
   persistAndBroadcast (trace (snd (snd (Send L0 (defaultInputSelection L0) acc0 w_AB rs100)))) =
     [AddPendingTransfer ''T0'' [''T0'', ''T1''] [1, 2] True, StoreAndBroadcast [''T0'', ''T1'']] \<and>
   store (snd (snd (Send L0 (defaultInputSelection L0) acc0 w_AB rs100))) =
     \<lparr>KeyIndex = 3, DepositRequests = [(3, dr_funded 10)],
      PendingTransfers =
        [\<lparr>pt_Tail = ''T0'', pt_Bundle = [''T0'', ''T1''], pt_Indices = [1, 2]\<rparr>]\<rparr> \<and>
   fst (Send L0 (defaultInputSelection L0) acc0 w_AB rs100) =
     broadcastResult L0 (setts acc0) [''T0'', ''T1''] \<and>
   pendingTransferOf L0 (defaultInputSelection L0) acc_disk_full (log Lock w_AB) rs100 =
     Some \<lparr>pt_Tail = ''T0'', pt_Bundle = [''T0'', ''T1''], pt_Indices = [1, 2]\<rparr> \<and>
   persistAndBroadcast
       (trace (snd (snd (Send L0 (defaultInputSelection L0) acc_disk_full w_AB rs100)))) =
     [AddPendingTransfer ''T0'' [''T0'', ''T1''] [1, 2] False] \<and>
   PendingTransfers
       (store (snd (snd (Send L0 (defaultInputSelection L0) acc_disk_full w_AB rs100)))) = [] \<and>
   fst (Send L0 (defaultInputSelection L0) acc_disk_full w_AB rs100) =
     Return (Inl (Wrap (Collaborator ''disk full'') ''unable to store pending transfer in send op.''))"
proof -
  have f: "AddPendingTransfer_fails (setts acc0) ''T0'' [''T0'', ''T1''] [1, 2] = None"
    "AddPendingTransfer_fails (setts acc_disk_full) ''T0'' [''T0'', ''T1''] [1, 2] =
       Some (Collaborator ''disk full'')"
    "trace w_AB = []" "PendingTransfers (store w_AB) = []"
    by (simp_all add: acc_disk_full_def acc0_def S0_def w_AB_def w0_def)
  have s: "store (snd (snd (Send L0 (defaultInputSelection L0) acc0 w_AB rs100))) =
     \<lparr>KeyIndex = 3, DepositRequests = [(3, dr_funded 10)],
      PendingTransfers =
        [\<lparr>pt_Tail = ''T0'', pt_Bundle = [''T0'', ''T1''], pt_Indices = [1, 2]\<rparr>]\<rparr>"
    by (simp add: Send_value_eval)
  obtain r a w' where e: "Send L0 (defaultInputSelection L0) acc0 w_AB rs100 = (r, a, w')"
    by (metis prod_cases3)
  obtain r2 a2 w2 where
    e2: "Send L0 (defaultInputSelection L0) acc_disk_full w_AB rs100 = (r2, a2, w2)"
    by (metis prod_cases3)
  from Send_persists_before_broadcast [OF e]
  have 1: "persistAndBroadcast (trace w') =
      [AddPendingTransfer ''T0'' [''T0'', ''T1''] [1, 2] True, StoreAndBroadcast [''T0'', ''T1'']] \<and>
      r = broadcastResult L0 (setts acc0) [''T0'', ''T1'']"
    by (auto simp: rs100_valid pending_acc0 f)
  from Send_persists_before_broadcast [OF e2]
  have 2: "persistAndBroadcast (trace w2) =
      [AddPendingTransfer ''T0'' [''T0'', ''T1''] [1, 2] False] \<and>
      PendingTransfers (store w2) = [] \<and>
      r2 = Return (Inl (Wrap (Collaborator ''disk full'')
                     ''unable to store pending transfer in send op.''))"
    by (auto simp: rs100_valid pending_disk_full f)
  show ?thesis
    using 1 2 s by (simp add: e e2 pending_acc0 pending_disk_full)
qed

section \<open>The consistency checker: when it answers true\<close>

lemma ex_first_Suc:
  "(\<exists>i < Suc n. P i \<and> (\<forall>j < i. Q j)) \<longleftrightarrow>
   (P 0 \<or> (Q 0 \<and> (\<exists>i < n. P (Suc i) \<and> (\<forall>j < i. Q (Suc j)))))"
proof
  assume "\<exists>i < Suc n. P i \<and> (\<forall>j < i. Q j)"
  then obtain i where i: "i < Suc n" "P i" "\<forall>j < i. Q j" by blast
  show "P 0 \<or> (Q 0 \<and> (\<exists>i < n. P (Suc i) \<and> (\<forall>j < i. Q (Suc j))))"
  proof (cases i)
    case 0
    with i show ?thesis by simp
  next
    case (Suc k)
    with i have "Q 0" "k < n" "P (Suc k)" "\<forall>j < k. Q (Suc j)" by auto
    then show ?thesis by blast
  qed
next
  assume "P 0 \<or> (Q 0 \<and> (\<exists>i < n. P (Suc i) \<and> (\<forall>j < i. Q (Suc j))))"
  then show "\<exists>i < Suc n. P i \<and> (\<forall>j < i. Q j)"
  proof
    assume "P 0"
    then show ?thesis by (intro exI [of _ 0]) simp
  next
    assume "Q 0 \<and> (\<exists>i < n. P (Suc i) \<and> (\<forall>j < i. Q (Suc j)))"
    then obtain k where k: "Q 0" "k < n" "P (Suc k)" "\<forall>j < k. Q (Suc j)" by blast
    have "\<forall>j < Suc k. Q j"
    proof (intro allI impI)
      fix j assume "j < Suc k"
      then show "Q j" using k(1,4) by (cases j) auto
    qed
    with k show ?thesis by (intro exI [of _ "Suc k"]) simp
  qed
qed

lemma firstConsistent_Cons:
  "firstConsistent S addr persisted (b # bs) \<longleftrightarrow>
     (candidate addr persisted (b # bs) 0 \<and> api_CheckConsistency S (tx_Hash (hd b)) = Inr True) \<or>
     ((candidate addr persisted (b # bs) 0 \<longrightarrow> api_CheckConsistency S (tx_Hash (hd b)) = Inr False) \<and>
      firstConsistent S addr
        (if tx_Persistence (hd b) = Some True then tx_Bundle (hd b) # persisted else persisted) bs)"
proof -
  have shift: "candidate addr persisted (b # bs) (Suc i) =
      candidate addr
        (if tx_Persistence (hd b) = Some True then tx_Bundle (hd b) # persisted else persisted) bs i"
    for i
    by (auto simp: candidate_def confirmedBefore_def)
  show ?thesis
    unfolding firstConsistent_def
    using ex_first_Suc [of "length bs"
        "\<lambda>i. candidate addr persisted (b # bs) i \<and>
             api_CheckConsistency S (tx_Hash (hd ((b # bs) ! i))) = Inr True"
        "\<lambda>j. candidate addr persisted (b # bs) j \<longrightarrow>
             api_CheckConsistency S (tx_Hash (hd ((b # bs) ! j))) = Inr False"]
    by (simp add: shift)
qed

lemma bundlesLoop_true_iff:
  "wellFormed bndls \<Longrightarrow>
   bundlesLoop S addr persisted bndls = Return (True, None) \<longleftrightarrow>
     firstConsistent S addr persisted bndls"
proof (induction bndls arbitrary: persisted)
  case Nil
  show ?case by (simp add: firstConsistent_def)
next
  case (Cons b bs)
  from Cons.prems obtain t0 ts p where b: "b = t0 # ts" and p: "tx_Persistence t0 = Some p"
    and wf: "wellFormed bs"
    by (cases b) (auto simp: wellFormed_def)
  note ih = Cons.IH [OF wf]
  have c0: "candidate addr persisted (b # bs) 0 \<longleftrightarrow>
      \<not> p \<and> tx_Bundle t0 \<notin> set persisted \<and> isDepositToAddr addr b"
    by (auto simp: candidate_def confirmedBefore_def b p)
  show ?case
  proof (cases p)
    case True
    then show ?thesis
      unfolding firstConsistent_Cons c0 by (simp add: b p ih)
  next
    case False
    show ?thesis
    proof (cases "tx_Bundle t0 \<in> set persisted \<or> \<not> isDepositToAddr addr b")
      case True
      with False show ?thesis
        unfolding firstConsistent_Cons c0 using b p ih by auto
    next
      case cand: False
      show ?thesis
      proof (cases "api_CheckConsistency S (tx_Hash t0)")
        case (Inl e)
        with False cand show ?thesis
          unfolding firstConsistent_Cons c0 using b p by auto
      next
        case (Inr consistent)
        with False cand show ?thesis
          unfolding firstConsistent_Cons c0 using b p ih by auto
      qed
    qed
  qed
qed

lemma bundlesLoop_true_no_error:
  "bundlesLoop S addr persisted bndls = Return (True, err) \<Longrightarrow> err = None"
proof (induction bndls arbitrary: persisted)
  case Nil
  then show ?case by simp
next
  case (Cons b bs)
  then show ?case
    by (auto split: list.splits option.splits if_splits sum.splits)
qed

lemma reattachment_first_eval:
  "hasIncomingConsistentValueTransfer acc_reattachment_first ''ADDR'' = Return (True, None)"
  by (simp add: hasIncomingConsistentValueTransfer_def acc_reattachment_first_def acc0_def S0_def
      bndl_reattachment_def bndl_confirmed_def isDepositToAddr_def)

lemma confirmed_first_eval:
  "hasIncomingConsistentValueTransfer acc_confirmed_first ''ADDR'' = Return (False, None)"
  by (simp add: hasIncomingConsistentValueTransfer_def acc_confirmed_first_def acc0_def S0_def
      bndl_reattachment_def bndl_confirmed_def isDepositToAddr_def)

text \<open>
  C7. The claim has every bundle family that is already confirmed skipped entirely,
  including all of its reattachments, regardless of the order in which the bundles are
  listed. The scan (lines 605 to 615 of the source) collects the bundle hashes of the
  confirmed bundles as it meets them, and skips an unconfirmed bundle ("skip reattachments
  of an already persisted bundle") only when its bundle hash has been collected by then:
  a reattachment listed before the confirmed bundle of its family is not skipped. Here
  the node lists an unconfirmed reattachment and a confirmed bundle of the same bundle
  hash, both depositing 5 into the address, and reports every transaction consistent.
  With the reattachment listed first the code answers true, though the only unconfirmed
  bundle belongs to a confirmed family; with the confirmed bundle listed first it answers
  false, as the claim has it for both orders.
\<close>

theorem reattachment_before_confirmed_bundle_not_skipped:
  "api_GetBundlesFromAddresses (setts acc_reattachment_first) [''ADDR''] True =
     Inr [bndl_reattachment, bndl_confirmed] \<and>
   api_GetBundlesFromAddresses (setts acc_confirmed_first) [''ADDR''] True =
     Inr [bndl_confirmed, bndl_reattachment] \<and>
   tx_Bundle (hd bndl_reattachment) = tx_Bundle (hd bndl_confirmed) \<and>
   tx_Persistence (hd bndl_confirmed) = Some True \<and>
   tx_Persistence (hd bndl_reattachment) = Some False \<and>
   hasIncomingConsistentValueTransfer acc_reattachment_first ''ADDR'' = Return (True, None) \<and>
   hasIncomingConsistentValueTransfer acc_confirmed_first ''ADDR'' = Return (False, None)"
  by (intro conjI reattachment_first_eval confirmed_first_eval)
     (simp_all add: acc_reattachment_first_def acc_confirmed_first_def acc0_def S0_def
        bndl_reattachment_def bndl_confirmed_def)

text \<open>
  The scan as it is written, when every listed bundle has a first transaction whose
  confirmation state is set: it answers true exactly when some listed bundle is
  unconfirmed, deposits a positive value into the address, has no confirmed bundle of its
  bundle hash listed before it and is reported consistent, every such bundle listed
  before it being reported inconsistent. So the skip reaches the reattachments that are
  listed after a confirmed bundle of their family, and no others. The scan never answers
  true together with an error, and when the node fails to list the bundles it answers
  false with that error.
\<close>

lemma scan_true_iff_first_consistent_candidate:
  "(\<forall>bndls.
      api_GetBundlesFromAddresses (setts acc) [addr] True = Inr bndls \<and> wellFormed bndls \<longrightarrow>
      (hasIncomingConsistentValueTransfer acc addr = Return (True, None) \<longleftrightarrow>
       (\<exists>i < length bndls.
          candidate addr [] bndls i \<and>
          api_CheckConsistency (setts acc) (tx_Hash (hd (bndls ! i))) = Inr True \<and>
          (\<forall>j < i. candidate addr [] bndls j \<longrightarrow>
             api_CheckConsistency (setts acc) (tx_Hash (hd (bndls ! j))) = Inr False)))) \<and>
   (\<forall>err. hasIncomingConsistentValueTransfer acc addr = Return (True, err) \<longrightarrow> err = None) \<and>
   (\<forall>e. api_GetBundlesFromAddresses (setts acc) [addr] True = Inl e \<longrightarrow>
      hasIncomingConsistentValueTransfer acc addr = Return (False, Some e))"
proof -
  have a: "\<forall>bndls.
      api_GetBundlesFromAddresses (setts acc) [addr] True = Inr bndls \<and> wellFormed bndls \<longrightarrow>
      (hasIncomingConsistentValueTransfer acc addr = Return (True, None) \<longleftrightarrow>
       (\<exists>i < length bndls.
          candidate addr [] bndls i \<and>
          api_CheckConsistency (setts acc) (tx_Hash (hd (bndls ! i))) = Inr True \<and>
          (\<forall>j < i. candidate addr [] bndls j \<longrightarrow>
             api_CheckConsistency (setts acc) (tx_Hash (hd (bndls ! j))) = Inr False)))"
  proof (intro allI impI)
    fix bndls
    assume h: "api_GetBundlesFromAddresses (setts acc) [addr] True = Inr bndls \<and> wellFormed bndls"
    then have "hasIncomingConsistentValueTransfer acc addr = bundlesLoop (setts acc) addr [] bndls"
      by (simp add: hasIncomingConsistentValueTransfer_def)
    with bundlesLoop_true_iff [of bndls "setts acc" addr "[]"] h
    show "hasIncomingConsistentValueTransfer acc addr = Return (True, None) \<longleftrightarrow>
       (\<exists>i < length bndls.
          candidate addr [] bndls i \<and>
          api_CheckConsistency (setts acc) (tx_Hash (hd (bndls ! i))) = Inr True \<and>
          (\<forall>j < i. candidate addr [] bndls j \<longrightarrow>
             api_CheckConsistency (setts acc) (tx_Hash (hd (bndls ! j))) = Inr False))"
      by (simp add: firstConsistent_def)
  qed
  have b: "\<forall>err. hasIncomingConsistentValueTransfer acc addr = Return (True, err) \<longrightarrow> err = None"
    by (auto simp: hasIncomingConsistentValueTransfer_def split: sum.splits
        dest: bundlesLoop_true_no_error)
  have c: "\<forall>e. api_GetBundlesFromAddresses (setts acc) [addr] True = Inl e \<longrightarrow>
      hasIncomingConsistentValueTransfer acc addr = Return (False, Some e)"
    by (simp add: hasIncomingConsistentValueTransfer_def)
  from a b c show ?thesis by (intro conjI)
qed

end
